theory Spec2Isabelle
  imports Complex_Main
begin

section \<open>JavaScript values used by the cart\<close>

text \<open>
  The cart is the class \<open>ShoppingCart\<close> of the repository's script. Its state is the object
  \<open>this.items\<close> (identifier to line item), the set \<open>this.observers\<close> and the entry of
  \<open>sessionStorage\<close> under \<open>this.storageKey\<close>.

  A JavaScript number is modelled as \<open>jsnum\<close>: a finite value, \<open>NaN\<close>, or one of the
  two infinities. A finite price is an exact rational (the rounding of fractions is not
  modelled, and \<open>-0\<close> is identified with \<open>0\<close>). A quantity is an integer, produced by
  \<open>0\<close>, \<open>+= 1\<close> and \<open>-= 1\<close>; sums and differences of integers are rounded as doubles
  are (\<open>to_double\<close> below), so that \<open>+= 1\<close> no longer changes a quantity of \<open>2^53\<close>.
\<close>

datatype jsnum = Fin rat | NaN | PosInf | NegInf

text \<open>A stored price is a number, or \<open>null\<close> (what JSON makes of a non-finite number).\<close>

datatype jsval = Null | Num jsnum

text \<open>\<open>price > 0\<close>: false for \<open>NaN\<close>.\<close>

fun js_gt_zero :: "jsnum \<Rightarrow> bool" where
  "js_gt_zero (Fin r) = (0 < r)"
| "js_gt_zero PosInf = True"
| "js_gt_zero NaN = False"
| "js_gt_zero NegInf = False"

text \<open>Truthiness of a number: \<open>0\<close> and \<open>NaN\<close> are falsy.\<close>

fun truthy :: "jsnum \<Rightarrow> bool" where
  "truthy (Fin r) = (r \<noteq> 0)"
| "truthy NaN = False"
| "truthy PosInf = True"
| "truthy NegInf = True"

text \<open>\<open>item.price || 0\<close>.\<close>

fun or_zero :: "jsval \<Rightarrow> jsnum" where
  "or_zero Null = Fin 0"
| "or_zero (Num n) = (if truthy n then n else Fin 0)"

text \<open>\<open>a + b\<close> and \<open>a * b\<close> on numbers, with the IEEE rules for the special values.\<close>

fun js_add :: "jsnum \<Rightarrow> jsnum \<Rightarrow> jsnum" where
  "js_add NaN b = NaN"
| "js_add a NaN = NaN"
| "js_add (Fin a) (Fin b) = Fin (a + b)"
| "js_add (Fin a) b = b"
| "js_add a (Fin b) = a"
| "js_add PosInf PosInf = PosInf"
| "js_add NegInf NegInf = NegInf"
| "js_add PosInf NegInf = NaN"
| "js_add NegInf PosInf = NaN"

fun js_neg :: "jsnum \<Rightarrow> jsnum" where
  "js_neg (Fin a) = Fin (- a)"
| "js_neg NaN = NaN"
| "js_neg PosInf = NegInf"
| "js_neg NegInf = PosInf"

fun js_mul :: "jsnum \<Rightarrow> jsnum \<Rightarrow> jsnum" where
  "js_mul NaN b = NaN"
| "js_mul a NaN = NaN"
| "js_mul (Fin a) (Fin b) = Fin (a * b)"
| "js_mul (Fin a) b = (if a = 0 then NaN else if 0 < a then b else js_neg b)"
| "js_mul a (Fin b) = (if b = 0 then NaN else if 0 < b then a else js_neg a)"
| "js_mul PosInf b = b"
| "js_mul NegInf b = js_neg b"

section \<open>Integers as doubles\<close>

text \<open>
  A double has 53 significant bits. The integers up to \<open>2^53 = 9007199254740992\<close> are
  doubles; from there on the doubles are the multiples of \<open>ulp n\<close>, which doubles with
  every power of two. \<open>round_nat n\<close> is the double nearest to \<open>n\<close>, and of two equally
  near the one with the even significand. (The largest double, near \<open>1.8 * 10^308\<close>, is
  not modelled: no quantity reaches it by \<open>+= 1\<close>.)
\<close>

fun ulp :: "nat \<Rightarrow> nat" where
  "ulp n = (if n < 9007199254740992 then 1 else 2 * ulp (n div 2))"

declare ulp.simps [simp del]

definition round_nat :: "nat \<Rightarrow> nat" where
  "round_nat n =
     (let u = ulp n; q = n div u; r = n mod u
      in if 2 * r < u \<or> (2 * r = u \<and> even q) then q * u else (q + 1) * u)"

definition to_double :: "int \<Rightarrow> int" where
  "to_double i = (if i < 0 then - int (round_nat (nat (- i))) else int (round_nat (nat i)))"

section \<open>Strings of numbers, and array indices\<close>

text \<open>
  \<open>`${item.quantity}`\<close> is \<open>Number.prototype.toString\<close> of an integer. It prints the
  shortest decimal number that denotes this double (the nearest one, if there are
  several): \<open>shortest d x\<close> looks for it among the numbers with at most \<open>d\<close> trailing
  digits replaced by zeros, fewest significant digits first. Below \<open>2^53\<close> that is the
  integer itself. A number of more than 21 digits is printed in exponent form.
\<close>

definition digit_char :: "nat \<Rightarrow> char" where
  "digit_char d = ''0123456789'' ! d"

fun digits10 :: "nat \<Rightarrow> string" where
  "digits10 n = (if n < 10 then [digit_char n] else digits10 (n div 10) @ [digit_char (n mod 10)])"

declare digits10.simps [simp del]

fun shortest :: "nat \<Rightarrow> nat \<Rightarrow> nat" where
  "shortest 0 x = x"
| "shortest (Suc d) x =
     (let p = 10 ^ Suc d; lo = (x div p) * p; hi = lo + p;
          ok_lo = (round_nat lo = x); ok_hi = (round_nat hi = x)
      in if ok_lo \<and> ok_hi then
           (if x - lo < hi - x \<or> (x - lo = hi - x \<and> even (x div p)) then lo else hi)
         else if ok_lo then lo
         else if ok_hi then hi
         else shortest d x)"

definition strip_zeros :: "string \<Rightarrow> string" where
  "strip_zeros ds = rev (dropWhile (\<lambda>c. c = CHR ''0'') (rev ds))"

definition exponent_form :: "nat \<Rightarrow> string" where
  "exponent_form v =
     (let ds = digits10 v; m = strip_zeros ds
      in hd m # (if tl m = [] then [] else CHR ''.'' # tl m) @ ''e+'' @ digits10 (length ds - 1))"

definition number_to_string :: "int \<Rightarrow> string" where
  "number_to_string q =
     (let x = nat \<bar>q\<bar>;
          v = (if x < 9007199254740992 then x else shortest (length (digits10 x) - 1) x)
      in (if q < 0 then ''-'' else []) @
         (if length (digits10 v) \<le> 21 then digits10 v else exponent_form v))"

text \<open>
  A property key is an array index when it is the canonical decimal form of an integer
  from \<open>0\<close> to \<open>2^32 - 2\<close>. An ordinary object lists its own keys with the array indices
  first, in ascending numeric order, and then the other strings in the order in which
  the properties were created.
\<close>

definition digit_of :: "char \<Rightarrow> nat option" where
  "digit_of c = map_of
     [(CHR ''0'', 0), (CHR ''1'', 1), (CHR ''2'', 2), (CHR ''3'', 3), (CHR ''4'', 4),
      (CHR ''5'', 5), (CHR ''6'', 6), (CHR ''7'', 7), (CHR ''8'', 8), (CHR ''9'', 9)] c"

fun decimal :: "nat \<Rightarrow> string \<Rightarrow> nat option" where
  "decimal acc [] = Some acc"
| "decimal acc (c # cs) =
     (case digit_of c of None \<Rightarrow> None | Some d \<Rightarrow> decimal (10 * acc + d) cs)"

definition array_index :: "string \<Rightarrow> nat option" where
  "array_index k =
     (if k = [] then None
      else if hd k = CHR ''0'' \<and> tl k \<noteq> [] then None
      else (case decimal 0 k of
              None \<Rightarrow> None
            | Some n \<Rightarrow> if n < 4294967295 then Some n else None))"

text \<open>\<open>precedes k k'\<close>: a new key \<open>k\<close> is listed before the existing key \<open>k'\<close>.\<close>

definition precedes :: "string \<Rightarrow> string \<Rightarrow> bool" where
  "precedes k k' =
     (case array_index k of
        None \<Rightarrow> False
      | Some n \<Rightarrow> (case array_index k' of None \<Rightarrow> True | Some n' \<Rightarrow> n < n'))"

section \<open>Own properties of an object, in their order\<close>

text \<open>
  An object used as a mapping is the list of its own properties in the order in which
  \<open>Object.keys\<close>, \<open>Object.values\<close>, \<open>Object.entries\<close>, the spread \<open>{...o}\<close> and
  \<open>JSON.stringify\<close> visit them.
\<close>

fun insert_prop :: "string \<Rightarrow> 'v \<Rightarrow> (string \<times> 'v) list \<Rightarrow> (string \<times> 'v) list" where
  "insert_prop k v [] = [(k, v)]"
| "insert_prop k v ((k', v') # ps) =
     (if precedes k k' then (k, v) # (k', v') # ps else (k', v') # insert_prop k v ps)"

text \<open>\<open>o[k] = v\<close> on own data properties: an existing key keeps its place.\<close>

definition put_prop :: "string \<Rightarrow> 'v \<Rightarrow> (string \<times> 'v) list \<Rightarrow> (string \<times> 'v) list" where
  "put_prop k v ps =
     (if k \<in> fst ` set ps then map (\<lambda>(k', v'). if k' = k then (k', v) else (k', v')) ps
      else insert_prop k v ps)"

text \<open>\<open>delete o[k]\<close>.\<close>

definition delete_prop :: "string \<Rightarrow> (string \<times> 'v) list \<Rightarrow> (string \<times> 'v) list" where
  "delete_prop k ps = filter (\<lambda>(k', v'). k' \<noteq> k) ps"

text \<open>\<open>{ ...o }\<close>: a new object that receives the own properties of \<open>o\<close> one by one.\<close>

definition spread :: "(string \<times> 'v) list \<Rightarrow> (string \<times> 'v) list" where
  "spread ps = foldl (\<lambda>acc (k, v). put_prop k v acc) [] ps"

text \<open>The lists that are the own properties of some object.\<close>

definition js_ordered :: "(string \<times> 'v) list \<Rightarrow> bool" where
  "js_ordered ps =
     (distinct (map fst ps) \<and> sorted_wrt (\<lambda>k k'. \<not> precedes k' k) (map fst ps))"

section \<open>The heap, the session storage and the store\<close>

text \<open>
  Objects have identity: \<open>this.items\<close>, every copy \<open>{ ...this.items }\<close> and every line item
  \<open>{ quantity, price }\<close> is an object in the heap, named by its address. Mapping objects
  and line items live in two heaps (\<open>objs\<close> and \<open>lines\<close>), each with the next free address.
\<close>

type_synonym addr = nat

type_synonym lid = nat

record line_item =
  quantity :: int
  price :: jsval

text \<open>
  The text kept by \<open>sessionStorage\<close> under \<open>this.storageKey\<close>. \<open>JSON.parse\<close> and
  \<open>JSON.stringify\<close> are the browser's: a text is identified with the JSON document it
  denotes (\<open>Text_json\<close>), and is otherwise the empty string or a text that
  \<open>JSON.parse\<close> rejects.
\<close>

datatype json =
  JNull | JBool bool | JNumber rat | JString string | JArray "json list"
  | JObject "(string \<times> json) list"

datatype jstext = Text_empty | Text_json json | Text_malformed

datatype error = Error string | TypeError | SyntaxError | DOMException

text \<open>
  \<open>sessionStorage\<close>: the value under the cart's key (absent: \<open>None\<close>), and whether
  \<open>getItem\<close> and \<open>setItem\<close> throw (storage disabled, quota exceeded).
\<close>

record storage =
  content :: "jstext option"
  getItem_throws :: bool
  setItem_throws :: bool

definition getItem :: "storage \<Rightarrow> error + jstext option" where
  "getItem st = (if getItem_throws st then Inl DOMException else Inr (content st))"

definition setItem :: "jstext \<Rightarrow> storage \<Rightarrow> error + storage" where
  "setItem t st = (if setItem_throws st then Inl DOMException else Inr (st\<lparr>content := Some t\<rparr>))"

fun JSON_parse :: "jstext \<Rightarrow> error + json" where
  "JSON_parse (Text_json j) = Inr j"
| "JSON_parse Text_empty = Inl SyntaxError"
| "JSON_parse Text_malformed = Inl SyntaxError"

text \<open>
  What a listener is called with, as the listener reads it: the entries of
  \<open>cartData.items\<close> with the contents of their line items, \<open>cartData.totalQuantity\<close> and
  \<open>cartData.totalPrice\<close>.
\<close>

type_synonym snapshot = "(string \<times> line_item) list \<times> int \<times> jsnum"

datatype log = Load_error error | Save_error error | Observer_error lid

text \<open>
  The cart and the part of the page it runs in. \<open>observers\<close> is the \<open>Set\<close> in insertion
  order. A listener is known by its identity; \<open>throws l d\<close> tells whether listener \<open>l\<close>,
  called with \<open>d\<close>, throws. Listeners only read their argument: they neither change it nor
  call back into the cart. \<open>calls\<close> records the listener calls made so far and \<open>console\<close>
  what \<open>console.error\<close> received. \<open>proto_price\<close> is \<open>Object.prototype.price\<close> when
  that property exists (see \<open>addItem\<close>).
\<close>

record store =
  items :: addr
  observers :: "lid list"
  objs :: "addr \<Rightarrow> (string \<times> addr) list"
  lines :: "addr \<Rightarrow> line_item"
  next_obj :: addr
  next_line :: addr
  proto_price :: "jsnum option"
  session :: storage
  throws :: "lid \<Rightarrow> snapshot \<Rightarrow> bool"
  calls :: "(lid \<times> snapshot) list"
  console :: "log list"

definition new_obj :: "(string \<times> addr) list \<Rightarrow> store \<Rightarrow> addr \<times> store" where
  "new_obj ps s =
     (next_obj s, s\<lparr>objs := (objs s)(next_obj s := ps), next_obj := Suc (next_obj s)\<rparr>)"

definition new_line :: "line_item \<Rightarrow> store \<Rightarrow> addr \<times> store" where
  "new_line li s =
     (next_line s, s\<lparr>lines := (lines s)(next_line s := li), next_line := Suc (next_line s)\<rparr>)"

text \<open>The entries of the mapping object at \<open>r\<close>, each with the contents of its line item.\<close>

definition resolve :: "store \<Rightarrow> addr \<Rightarrow> (string \<times> line_item) list" where
  "resolve s r = map (\<lambda>(k, a). (k, lines s a)) (objs s r)"

text \<open>\<open>Object.keys(this.items)\<close>, \<open>Object.values(this.items)\<close>, \<open>Object.entries(this.items)\<close>.\<close>

definition Object_keys :: "store \<Rightarrow> string list" where
  "Object_keys s = map fst (objs s (items s))"

definition Object_values :: "store \<Rightarrow> line_item list" where
  "Object_values s = map (\<lambda>(k, a). lines s a) (objs s (items s))"

definition Object_entries :: "store \<Rightarrow> (string \<times> line_item) list" where
  "Object_entries s = resolve s (items s)"

section \<open>Property lookup through the prototype\<close>

text \<open>
  \<open>this.items\<close> is made by \<open>{}\<close> or by \<open>JSON.parse\<close>, so its prototype is
  \<open>Object.prototype\<close>, and \<open>this.items[variantId]\<close> finds an own property, or else what
  \<open>Object.prototype\<close> has under that name: one of its twelve standard properties (eleven
  functions, and \<open>__proto__\<close>, which yields \<open>Object.prototype\<close> itself), or a property
  that the cart put there. The cart can put two: \<open>quantity\<close>, always \<open>NaN\<close> (falsy, as
  \<open>undefined\<close> is, so it is not recorded), and \<open>price\<close>, recorded in \<open>proto_price\<close>.
\<close>

definition Object_prototype_keys :: "string list" where
  "Object_prototype_keys =
     [''constructor'', ''__defineGetter__'', ''__defineSetter__'', ''hasOwnProperty'',
      ''__lookupGetter__'', ''__lookupSetter__'', ''isPrototypeOf'', ''propertyIsEnumerable'',
      ''toString'', ''valueOf'', ''__proto__'', ''toLocaleString'']"

datatype looked_up = Own addr | Proto_object | Proto_number jsnum | Undefined

definition get_prop :: "store \<Rightarrow> string \<Rightarrow> looked_up" where
  "get_prop s k =
     (case map_of (objs s (items s)) k of
        Some a \<Rightarrow> Own a
      | None \<Rightarrow>
          if k \<in> set Object_prototype_keys then Proto_object
          else if k = ''price'' then
            (case proto_price s of None \<Rightarrow> Undefined | Some p \<Rightarrow> Proto_number p)
          else Undefined)"

fun truthy_prop :: "looked_up \<Rightarrow> bool" where
  "truthy_prop (Own a) = True"
| "truthy_prop Proto_object = True"
| "truthy_prop (Proto_number p) = truthy p"
| "truthy_prop Undefined = False"

section \<open>Totals\<close>

definition getTotalQuantity :: "store \<Rightarrow> int" where
  "getTotalQuantity s = foldl (\<lambda>total item. to_double (total + quantity item)) 0 (Object_values s)"

definition getTotalPrice :: "store \<Rightarrow> jsnum" where
  "getTotalPrice s =
     foldl (\<lambda>total item. js_add total (js_mul (Fin (of_int (quantity item))) (or_zero (price item))))
       (Fin 0) (Object_values s)"

section \<open>Persistence\<close>

text \<open>\<open>JSON.stringify\<close> of a price: a non-finite number becomes \<open>null\<close>.\<close>

fun json_of_price :: "jsval \<Rightarrow> json" where
  "json_of_price Null = JNull"
| "json_of_price (Num (Fin r)) = JNumber r"
| "json_of_price (Num NaN) = JNull"
| "json_of_price (Num PosInf) = JNull"
| "json_of_price (Num NegInf) = JNull"

definition json_of_line :: "line_item \<Rightarrow> json" where
  "json_of_line item =
     JObject [(''quantity'', JNumber (of_int (quantity item))), (''price'', json_of_price (price item))]"

text \<open>\<open>JSON.stringify(this.items)\<close>.\<close>

definition JSON_stringify :: "store \<Rightarrow> jstext" where
  "JSON_stringify s = Text_json (JObject (map (\<lambda>(k, item). (k, json_of_line item)) (Object_entries s)))"

definition saveToStorage :: "store \<Rightarrow> store" where
  "saveToStorage s =
     (case setItem (JSON_stringify s) (session s) of
        Inr st \<Rightarrow> s\<lparr>session := st\<rparr>
      | Inl e \<Rightarrow> s\<lparr>console := console s @ [Save_error e]\<rparr>)"

text \<open>
  The documents that are a mapping of line items: an object whose values are objects
  with exactly the properties \<open>quantity\<close> (an integer) and \<open>price\<close> (a number or
  \<open>null\<close>), in this order. Any other document is outside the data model of the cart.
\<close>

definition line_of_json :: "json \<Rightarrow> line_item option" where
  "line_of_json j =
     (case j of
        JObject [(k1, JNumber q), (k2, p)] \<Rightarrow>
          if k1 = ''quantity'' \<and> k2 = ''price'' \<and> of_int \<lfloor>q\<rfloor> = q then
            (case p of
               JNull \<Rightarrow> Some \<lparr>quantity = \<lfloor>q\<rfloor>, price = Null\<rparr>
             | JNumber r \<Rightarrow> Some \<lparr>quantity = \<lfloor>q\<rfloor>, price = Num (Fin r)\<rparr>
             | _ \<Rightarrow> None)
          else None
      | _ \<Rightarrow> None)"

fun lines_of_json :: "(string \<times> json) list \<Rightarrow> (string \<times> line_item) list option" where
  "lines_of_json [] = Some []"
| "lines_of_json ((k, j) # rest) =
     (case line_of_json j of
        None \<Rightarrow> None
      | Some item \<Rightarrow> (case lines_of_json rest of None \<Rightarrow> None | Some es \<Rightarrow> Some ((k, item) # es)))"

fun items_of_json :: "json \<Rightarrow> (string \<times> line_item) list option" where
  "items_of_json (JObject kvs) = lines_of_json kvs"
| "items_of_json j = None"

text \<open>
  The object \<open>JSON.parse\<close> builds: a new line item for every member of the document,
  stored under its key (a repeated key keeps its first place and its last value).
\<close>

fun build :: "(string \<times> line_item) list \<Rightarrow> (string \<times> addr) list \<Rightarrow> store \<Rightarrow> (string \<times> addr) list \<times> store" where
  "build [] ps s = (ps, s)"
| "build ((k, item) # rest) ps s = (case new_line item s of (a, s1) \<Rightarrow> build rest (put_prop k a ps) s1)"

text \<open>
  \<open>loadFromStorage\<close> returns the address of the loaded object; \<open>None\<close> stands for a
  stored document that is outside the data model.
\<close>

definition loadFromStorage :: "store \<Rightarrow> (addr \<times> store) option" where
  "loadFromStorage s =
     (case getItem (session s) of
        Inl e \<Rightarrow> Some (new_obj [] (s\<lparr>console := console s @ [Load_error e]\<rparr>))
      | Inr None \<Rightarrow> Some (new_obj [] s)
      | Inr (Some stored) \<Rightarrow>
          if stored = Text_empty then Some (new_obj [] s)
          else
            (case JSON_parse stored of
               Inl e \<Rightarrow> Some (new_obj [] (s\<lparr>console := console s @ [Load_error e]\<rparr>))
             | Inr j \<Rightarrow>
                 (case items_of_json j of
                    None \<Rightarrow> None
                  | Some es \<Rightarrow> (case build es [] s of (ps, s1) \<Rightarrow> Some (new_obj ps s1)))))"

text \<open>The constructor: \<open>new ShoppingCart()\<close> in the page \<open>w\<close>.\<close>

definition ShoppingCart :: "store \<Rightarrow> store option" where
  "ShoppingCart w =
     (case loadFromStorage (w\<lparr>observers := []\<rparr>) of
        None \<Rightarrow> None
      | Some (a, s) \<Rightarrow> Some (s\<lparr>items := a\<rparr>))"

text \<open>A page in which no script has run yet.\<close>

definition page :: "storage \<Rightarrow> (lid \<Rightarrow> snapshot \<Rightarrow> bool) \<Rightarrow> store" where
  "page st f =
     \<lparr>items = 0, observers = [], objs = (\<lambda>r. []), lines = (\<lambda>a. \<lparr>quantity = 0, price = Null\<rparr>),
      next_obj = 0, next_line = 0, proto_price = None, session = st, throws = f,
      calls = [], console = []\<rparr>"

section \<open>Observers\<close>

text \<open>\<open>subscribe\<close> is called with a function (known by its identity) or with something else.\<close>

datatype js_arg = Function lid | Not_function

fun subscribe :: "js_arg \<Rightarrow> store \<Rightarrow> store" where
  "subscribe (Function l) s =
     (if l \<in> set (observers s) then s else s\<lparr>observers := observers s @ [l]\<rparr>)"
| "subscribe Not_function s = s"

fun unsubscribe :: "js_arg \<Rightarrow> store \<Rightarrow> store" where
  "unsubscribe (Function l) s = s\<lparr>observers := filter (\<lambda>l'. l' \<noteq> l) (observers s)\<rparr>"
| "unsubscribe Not_function s = s"

text \<open>The object \<open>cartData\<close>; its \<open>items\<close> is the address of the copy.\<close>

record cart_data =
  data_items :: addr
  totalQuantity :: int
  totalPrice :: jsnum

definition seen :: "store \<Rightarrow> cart_data \<Rightarrow> snapshot" where
  "seen s d = (resolve s (data_items d), totalQuantity d, totalPrice d)"

text \<open>One round of the \<open>forEach\<close>: the call in its \<open>try\<close>, and the \<open>catch\<close>.\<close>

definition call_observer :: "lid \<Rightarrow> cart_data \<Rightarrow> store \<Rightarrow> store" where
  "call_observer l d s =
     (let s1 = s\<lparr>calls := calls s @ [(l, seen s d)]\<rparr>
      in if throws s l (seen s d) then s1\<lparr>console := console s1 @ [Observer_error l]\<rparr> else s1)"

fun forEach_observer :: "lid list \<Rightarrow> cart_data \<Rightarrow> store \<Rightarrow> store" where
  "forEach_observer [] d s = s"
| "forEach_observer (l # ls) d s = forEach_observer ls d (call_observer l d s)"

definition notifyObservers :: "store \<Rightarrow> store" where
  "notifyObservers s =
     (case new_obj (spread (objs s (items s))) s of
        (c, s1) \<Rightarrow>
          forEach_observer (observers s1)
            \<lparr>data_items = c, totalQuantity = getTotalQuantity s1, totalPrice = getTotalPrice s1\<rparr> s1)"

section \<open>The cart's operations\<close>

text \<open>
  An operation returns its value and the store, or throws: \<open>Inl\<close> holds the error and
  the store as it is when the error leaves the method. \<open>variantId\<close> is a string or
  absent (\<open>None\<close>); \<open>price\<close> is a number or absent, and then takes its default \<open>0\<close>.
\<close>

definition create_line :: "string \<Rightarrow> jsnum \<Rightarrow> store \<Rightarrow> store" where
  "create_line k p s =
     (case new_line \<lparr>quantity = 0, price = Num p\<rparr> s of
        (a, s1) \<Rightarrow> s1\<lparr>objs := (objs s1)(items s1 := put_prop k a (objs s1 (items s1)))\<rparr>)"

definition set_quantity :: "addr \<Rightarrow> int \<Rightarrow> store \<Rightarrow> store" where
  "set_quantity a q s = s\<lparr>lines := (lines s)(a := (lines s a)\<lparr>quantity := q\<rparr>)\<rparr>"

definition set_price :: "addr \<Rightarrow> jsval \<Rightarrow> store \<Rightarrow> store" where
  "set_price a p s = s\<lparr>lines := (lines s)(a := (lines s a)\<lparr>price := p\<rparr>)\<rparr>"

text \<open>
  \<open>addItem\<close>. When \<open>this.items[variantId]\<close> is found on \<open>Object.prototype\<close>, no entry is
  created: if what is found is an object, \<open>quantity += 1\<close> makes its \<open>quantity\<close>
  \<open>NaN\<close> (\<open>undefined + 1\<close>, and \<open>NaN + 1\<close> ever after), and a positive price is stored on that
  object, which for \<open>__proto__\<close> is \<open>Object.prototype\<close> itself; if it is a truthy number,
  assigning to its \<open>quantity\<close> throws a \<open>TypeError\<close> (a class body is strict code).
\<close>

definition default_zero :: "jsnum option \<Rightarrow> jsnum" where
  "default_zero price_arg = (case price_arg of None \<Rightarrow> Fin 0 | Some p \<Rightarrow> p)"

definition addItem :: "string option \<Rightarrow> jsnum option \<Rightarrow> store \<Rightarrow> (error \<times> store) + (jsnum \<times> store)" where
  "addItem variantId price_arg s =
     (let price = default_zero price_arg in
      case variantId of
        None \<Rightarrow> Inl (Error ''Variant ID is required'', s)
      | Some k \<Rightarrow>
          if k = [] then Inl (Error ''Variant ID is required'', s)
          else
            let s1 = (if \<not> truthy_prop (get_prop s k) then create_line k price s else s) in
            (case get_prop s1 k of
               Own a \<Rightarrow>
                 let s2 = set_quantity a (to_double (quantity (lines s1 a) + 1)) s1;
                     s3 = (if js_gt_zero price then set_price a (Num price) s2 else s2);
                     s4 = saveToStorage s3;
                     s5 = notifyObservers s4
                 in Inr (Fin (of_int (quantity (lines s5 a))), s5)
             | Proto_object \<Rightarrow>
                 let s3 = (if js_gt_zero price \<and> k = ''__proto__''
                           then s1\<lparr>proto_price := Some price\<rparr> else s1);
                     s4 = saveToStorage s3;
                     s5 = notifyObservers s4
                 in Inr (NaN, s5)
             | Proto_number p \<Rightarrow> Inl (TypeError, s1)
             | Undefined \<Rightarrow> Inl (TypeError, s1)))"

definition removeItem :: "string option \<Rightarrow> store \<Rightarrow> (error \<times> store) + (jsnum \<times> store)" where
  "removeItem variantId s =
     (case variantId of
        None \<Rightarrow> Inr (Fin 0, s)
      | Some k \<Rightarrow>
          if k = [] \<or> \<not> truthy_prop (get_prop s k) then Inr (Fin 0, s)
          else
            (case get_prop s k of
               Own a \<Rightarrow>
                 let s1 = set_quantity a (to_double (quantity (lines s a) - 1)) s in
                 if quantity (lines s1 a) \<le> 0 then
                   let s2 = s1\<lparr>objs := (objs s1)(items s1 := delete_prop k (objs s1 (items s1)))\<rparr>;
                       s3 = saveToStorage s2;
                       s4 = notifyObservers s3
                   in Inr (Fin 0, s4)
                 else
                   let s3 = saveToStorage s1;
                       s4 = notifyObservers s3
                   in Inr (Fin (of_int (quantity (lines s4 a))), s4)
             | Proto_object \<Rightarrow>
                 let s3 = saveToStorage s;
                     s4 = notifyObservers s3
                 in Inr (NaN, s4)
             | Proto_number p \<Rightarrow> Inl (TypeError, s)
             | Undefined \<Rightarrow> Inl (TypeError, s)))"

text \<open>\<open>this.items[variantId]?.quantity || 0\<close>; an absent argument is the key \<open>undefined\<close>.\<close>

definition getItemQuantity :: "string option \<Rightarrow> store \<Rightarrow> int" where
  "getItemQuantity variantId s =
     (case get_prop s (case variantId of None \<Rightarrow> ''undefined'' | Some k \<Rightarrow> k) of
        Own a \<Rightarrow> (if quantity (lines s a) \<noteq> 0 then quantity (lines s a) else 0)
      | Proto_object \<Rightarrow> 0
      | Proto_number p \<Rightarrow> 0
      | Undefined \<Rightarrow> 0)"

definition clearCart :: "store \<Rightarrow> store" where
  "clearCart s =
     (case new_obj [] s of
        (e, s1) \<Rightarrow> notifyObservers (saveToStorage (s1\<lparr>items := e\<rparr>)))"

text \<open>\<open>getAllItems\<close> returns the address of a new object.\<close>

definition getAllItems :: "store \<Rightarrow> addr \<times> store" where
  "getAllItems s = new_obj (spread (objs s (items s))) s"

definition isEmpty :: "store \<Rightarrow> bool" where
  "isEmpty s = (length (Object_keys s) = 0)"

text \<open>\<open>Array.prototype.join\<close>.\<close>

fun join :: "string \<Rightarrow> string list \<Rightarrow> string" where
  "join sep [] = []"
| "join sep [x] = x"
| "join sep (x # y # ys) = x @ sep @ join sep (y # ys)"

definition checkout_base :: string where
  "checkout_base = ''https://ployskanombuns.myshopify.com/cart''"

definition getCheckoutUrl :: "store \<Rightarrow> string" where
  "getCheckoutUrl s =
     (if isEmpty s then checkout_base
      else
        let cartItems =
              join '','' (map (\<lambda>(variantId, item). variantId @ '':'' @ number_to_string (quantity item))
                            (Object_entries s))
        in checkout_base @ ''/'' @ cartItems)"

section \<open>What a caller can do to an object it was given\<close>

text \<open>
  A caller that holds the address \<open>r\<close> of a mapping object can assign and delete its
  properties (\<open>r[k] = a\<close>, \<open>delete r[k]\<close>) and can assign to the fields of the line items
  that are its own entries (\<open>r[k].quantity = q\<close>, \<open>r[k].price = p\<close> for an own key \<open>k\<close>
  of \<open>r\<close>; for any other key no line item is reached). Assigning to \<open>r.__proto__\<close>, when
  it is not an own property, replaces the prototype of \<open>r\<close> and leaves its properties as
  they are.
\<close>

datatype mutation =
  Set_entry string addr | Delete_entry string | Set_quantity string int | Set_price string jsval

fun mutate :: "addr \<Rightarrow> mutation \<Rightarrow> store \<Rightarrow> store" where
  "mutate r (Set_entry k a) s =
     (if k = ''__proto__'' \<and> k \<notin> fst ` set (objs s r) then s
      else s\<lparr>objs := (objs s)(r := put_prop k a (objs s r))\<rparr>)"
| "mutate r (Delete_entry k) s = s\<lparr>objs := (objs s)(r := delete_prop k (objs s r))\<rparr>"
| "mutate r (Set_quantity k q) s =
     (case map_of (objs s r) k of None \<Rightarrow> s | Some a \<Rightarrow> set_quantity a q s)"
| "mutate r (Set_price k p) s =
     (case map_of (objs s r) k of None \<Rightarrow> s | Some a \<Rightarrow> set_price a p s)"

definition mutate_all :: "addr \<Rightarrow> mutation list \<Rightarrow> store \<Rightarrow> store" where
  "mutate_all r ms s = foldl (\<lambda>s m. mutate r m s) s ms"

text \<open>Whether a mutation only touches the object's own properties.\<close>

fun top_level :: "mutation \<Rightarrow> bool" where
  "top_level (Set_entry k a) = True"
| "top_level (Delete_entry k) = True"
| "top_level (Set_quantity k q) = False"
| "top_level (Set_price k p) = False"

section \<open>Notions used to state the properties\<close>

text \<open>The store an operation leaves, and what its caller receives.\<close>

fun after :: "(error \<times> store) + ('a \<times> store) \<Rightarrow> store" where
  "after (Inl (e, s)) = s"
| "after (Inr (v, s)) = s"

fun outcome :: "(error \<times> store) + ('a \<times> store) \<Rightarrow> error + 'a" where
  "outcome (Inl (e, s)) = Inl e"
| "outcome (Inr (v, s)) = Inr v"

text \<open>
  The stores that exist: \<open>this.items\<close> is an allocated object, its properties are in
  the order of an object's own properties, every entry is an allocated line item of
  its own (no line item is shared by two identifiers), and \<open>observers\<close> is a set.
\<close>

definition store_ok :: "store \<Rightarrow> bool" where
  "store_ok s =
     (items s < next_obj s \<and>
      js_ordered (objs s (items s)) \<and>
      distinct (map snd (objs s (items s))) \<and>
      (\<forall>a \<in> snd ` set (objs s (items s)). a < next_line s) \<and>
      distinct (observers s))"

text \<open>The invariant of the data model: every entry has a quantity of at least one.\<close>

definition cart_inv :: "store \<Rightarrow> bool" where
  "cart_inv s = (\<forall>item \<in> set (Object_values s). 1 \<le> quantity item)"

text \<open>The snapshot of a store: its entries and its totals.\<close>

definition snapshot_of :: "store \<Rightarrow> snapshot" where
  "snapshot_of s = (Object_entries s, getTotalQuantity s, getTotalPrice s)"

text \<open>
  \<open>notified s s'\<close>: between \<open>s\<close> and \<open>s'\<close> every listener subscribed in \<open>s\<close> was called
  once, in subscription order, with the snapshot of \<open>s'\<close>, nothing else was called, and
  \<open>console.error\<close> received exactly the listeners that threw.
\<close>

definition notified :: "store \<Rightarrow> store \<Rightarrow> bool" where
  "notified s s' =
     (calls s' = calls s @ map (\<lambda>l. (l, snapshot_of s')) (observers s) \<and>
      filter (\<lambda>e. case e of Observer_error l \<Rightarrow> True | _ \<Rightarrow> False) (console s') =
        filter (\<lambda>e. case e of Observer_error l \<Rightarrow> True | _ \<Rightarrow> False) (console s) @
        map Observer_error (filter (\<lambda>l. throws s l (snapshot_of s')) (observers s)))"

text \<open>
  \<open>persisted s s'\<close>: between \<open>s\<close> and \<open>s'\<close> the items of \<open>s'\<close> were written to the session
  storage, unless \<open>setItem\<close> throws, and then the storage is as it was.
\<close>

definition persisted :: "store \<Rightarrow> store \<Rightarrow> bool" where
  "persisted s s' =
     (session s' =
        (if setItem_throws (session s) then session s
         else (session s)\<lparr>content := Some (JSON_stringify s')\<rparr>))"

text \<open>What the store holds in memory: everything but the session storage and the console.\<close>

definition in_memory ::
  "store \<Rightarrow> addr \<times> lid list \<times> (addr \<Rightarrow> (string \<times> addr) list) \<times> (addr \<Rightarrow> line_item) \<times> addr \<times> addr \<times>
     jsnum option \<times> (lid \<times> snapshot) list" where
  "in_memory s =
     (items s, observers s, objs s, lines s, next_obj s, next_line s, proto_price s, calls s)"

text \<open>What the accessors return: entries, totals, emptiness and the checkout URL.\<close>

definition observable :: "store \<Rightarrow> (string \<times> line_item) list \<times> int \<times> jsnum \<times> bool \<times> string" where
  "observable s =
     (Object_entries s, getTotalQuantity s, getTotalPrice s, isEmpty s, getCheckoutUrl s)"

text \<open>A stored price that JSON keeps: a finite number or \<open>null\<close>.\<close>

fun json_price :: "jsval \<Rightarrow> bool" where
  "json_price Null = True"
| "json_price (Num (Fin r)) = True"
| "json_price (Num n) = False"

text \<open>
  The session storage of a new session, listeners that never throw, and the cart that
  the constructor builds in a new page (\<open>ShoppingCart_new_session\<close> below).
\<close>

definition no_storage :: storage where
  "no_storage = \<lparr>content = None, getItem_throws = False, setItem_throws = False\<rparr>"

definition quiet :: "lid \<Rightarrow> snapshot \<Rightarrow> bool" where
  "quiet l d = False"

definition empty_cart :: store where
  "empty_cart = the (ShoppingCart (page no_storage quiet))"

text \<open>
  \<open>inherited s k\<close>: \<open>k\<close> is the name of a property of \<open>Object.prototype\<close>, one of the
  standard ones or the \<open>price\<close> that the cart has put there.
\<close>

definition inherited :: "store \<Rightarrow> string \<Rightarrow> bool" where
  "inherited s k = (k \<in> set Object_prototype_keys \<or> (k = ''price'' \<and> proto_price s \<noteq> None))"

text \<open>\<open>addItem(k)\<close> for every \<open>k\<close> of a list, in turn.\<close>

definition add_all :: "string list \<Rightarrow> store \<Rightarrow> store" where
  "add_all ks s = foldl (\<lambda>s k. after (addItem (Some k) None s)) s ks"

text \<open>The elements of a list in the order of their first occurrence.\<close>

definition first_occurrences :: "string list \<Rightarrow> string list" where
  "first_occurrences ks = rev (remdups (rev ks))"

text \<open>An identifier that is not empty, not an array index and not found on
  \<open>Object.prototype\<close>.\<close>

definition plain :: "string \<Rightarrow> bool" where
  "plain k = (k \<noteq> [] \<and> array_index k = None \<and> k \<notin> set Object_prototype_keys)"

section \<open>Lemmas\<close>

subsection \<open>Integers as doubles\<close>

lemma ulp_pos [simp]: "0 < ulp n"
  by (induction n rule: ulp.induct) (subst ulp.simps, simp)

lemma ulp_le: "0 < n \<Longrightarrow> ulp n \<le> n"
proof (induction n rule: ulp.induct)
  case (1 n)
  show ?case
  proof (cases "n < 9007199254740992")
    case True
    then show ?thesis using 1(2) by (subst ulp.simps) simp
  next
    case False
    then have "0 < n div 2" by simp
    with 1(1)[OF False] have "ulp (n div 2) \<le> n div 2" by simp
    then show ?thesis using False by (subst ulp.simps) simp
  qed
qed

lemma round_nat_small: "n < 9007199254740992 \<Longrightarrow> round_nat n = n"
  by (simp add: round_nat_def ulp.simps)

lemma round_nat_pos: "0 < n \<Longrightarrow> 0 < round_nat n"
proof -
  assume n: "0 < n"
  have "ulp n \<le> n" using n by (rule ulp_le)
  then have "0 < n div ulp n" by (simp add: div_greater_zero_iff)
  then show ?thesis by (simp add: round_nat_def Let_def)
qed

lemma round_nat_zero [simp]: "round_nat 0 = 0"
  by (simp add: round_nat_small)

lemma to_double_small: "\<bar>i\<bar> < 9007199254740992 \<Longrightarrow> to_double i = i"
  by (auto simp: to_double_def round_nat_small)

lemma to_double_pos [simp]: "(0 < to_double i) = (0 < i)"
proof (cases "0 < i")
  case True
  then show ?thesis using round_nat_pos[of "nat i"] by (simp add: to_double_def)
next
  case False
  then show ?thesis by (cases "i = 0") (simp_all add: to_double_def)
qed

lemma to_double_le_zero [simp]: "(to_double i \<le> 0) = (i \<le> 0)"
  using to_double_pos[of i] by linarith

lemma to_double_ge_one [simp]: "(1 \<le> to_double i) = (1 \<le> i)"
  using to_double_pos[of i] by linarith

lemma to_double_limit: "to_double (9007199254740992 + 1) = 9007199254740992"
  by (simp add: to_double_def round_nat_def ulp.simps)

subsection \<open>Property lists\<close>

lemma set_insert_prop: "set (insert_prop k v ps) = insert (k, v) (set ps)"
  by (induction ps) (auto split: if_splits)

lemma map_of_insert_prop: "k \<notin> fst ` set ps \<Longrightarrow> map_of (insert_prop k v ps) = (map_of ps)(k \<mapsto> v)"
  by (induction ps) (auto simp: fun_upd_twist)

lemma map_of_update: "map_of (map (\<lambda>(k', v'). if k' = k then (k', v) else (k', v')) ps) = (if k \<in> fst ` set ps then (map_of ps)(k \<mapsto> v) else map_of ps)"
  by (induction ps) (auto simp: fun_upd_twist)

lemma map_of_put_prop: "map_of (put_prop k v ps) = (map_of ps)(k \<mapsto> v)"
  by (simp add: put_prop_def map_of_insert_prop map_of_update)

lemma map_of_delete_prop: "map_of (delete_prop k ps) = (map_of ps)(k := None)"
  by (induction ps) (auto simp: delete_prop_def)

lemma keys_update: "map fst (map (\<lambda>(k', v'). if k' = k then (k', v) else (k', v')) ps) = map fst ps"
  by (induction ps) auto

lemma js_ordered_Cons: "js_ordered ((k, v) # ps) = (k \<notin> fst ` set ps \<and> (\<forall>k' \<in> fst ` set ps. \<not> precedes k' k) \<and> js_ordered ps)"
  by (auto simp: js_ordered_def)

lemma js_ordered_insert: "js_ordered ps \<Longrightarrow> k \<notin> fst ` set ps \<Longrightarrow> js_ordered (insert_prop k v ps)"
proof (induction ps)
  case Nil
  then show ?case by (simp add: js_ordered_def)
next
  case (Cons p ps)
  obtain k' v' where p: "p = (k', v')" by (cases p)
  from Cons.prems have ord: "js_ordered ps" and nk: "k \<notin> fst ` set ps" and kk: "k \<noteq> k'"
    and k'n: "k' \<notin> fst ` set ps" and k'le: "\<forall>x \<in> fst ` set ps. \<not> precedes x k'"
    by (auto simp: p js_ordered_Cons)
  show ?case
  proof (cases "precedes k k'")
    case True
    have "\<forall>x \<in> fst ` set ps. \<not> precedes x k"
    proof
      fix x assume "x \<in> fst ` set ps"
      with k'le have "\<not> precedes x k'" by blast
      with True show "\<not> precedes x k" by (auto simp: precedes_def split: option.splits)
    qed
    moreover from True have "\<not> precedes k' k" by (auto simp: precedes_def split: option.splits)
    ultimately show ?thesis using True Cons.prems kk nk by (auto simp: p js_ordered_Cons)
  next
    case False
    have "js_ordered (insert_prop k v ps)" using Cons.IH ord nk by blast
    then show ?thesis using False k'n k'le kk by (auto simp: p js_ordered_Cons set_insert_prop)
  qed
qed

lemma js_ordered_update: "js_ordered ps \<Longrightarrow> js_ordered (map (\<lambda>(k', v'). if k' = k then (k', v) else (k', v')) ps)"
  unfolding js_ordered_def keys_update by simp

lemma js_ordered_put_prop: "js_ordered ps \<Longrightarrow> js_ordered (put_prop k v ps)"
  by (simp add: put_prop_def js_ordered_insert js_ordered_update)

lemma js_ordered_delete_prop: "js_ordered ps \<Longrightarrow> js_ordered (delete_prop k ps)"
  by (induction ps) (auto simp: delete_prop_def js_ordered_Cons)

lemma insert_prop_last: "\<forall>k' \<in> fst ` set ps. \<not> precedes k k' \<Longrightarrow> insert_prop k v ps = ps @ [(k, v)]"
  by (induction ps) auto

lemma foldl_put_prop: "js_ordered (acc @ ps) \<Longrightarrow> foldl (\<lambda>acc (k, v). put_prop k v acc) acc ps = acc @ ps"
proof (induction ps arbitrary: acc)
  case Nil
  then show ?case by simp
next
  case (Cons p ps)
  obtain k v where p: "p = (k, v)" by (cases p)
  from Cons.prems have d: "k \<notin> fst ` set acc" and le: "\<forall>k' \<in> fst ` set acc. \<not> precedes k k'"
    by (auto simp: p js_ordered_def sorted_wrt_append)
  have "put_prop k v acc = acc @ [(k, v)]" using d le by (simp add: put_prop_def insert_prop_last)
  moreover have "js_ordered ((acc @ [(k, v)]) @ ps)" using Cons.prems by (simp add: p)
  ultimately show ?case using Cons.IH[of "acc @ [(k, v)]"] by (simp add: p)
qed

lemma spread_id: "js_ordered ps \<Longrightarrow> spread ps = ps"
  using foldl_put_prop[of "[]" ps] by (simp add: spread_def)

subsection \<open>What saving and notifying leave unchanged\<close>

lemma same_items:
  assumes "items s' = items s" "objs s' (items s) = objs s (items s)" "lines s' = lines s"
  shows "Object_entries s' = Object_entries s" "Object_values s' = Object_values s"
    "Object_keys s' = Object_keys s" "getTotalQuantity s' = getTotalQuantity s"
    "getTotalPrice s' = getTotalPrice s" "isEmpty s' = isEmpty s"
    "getCheckoutUrl s' = getCheckoutUrl s" "JSON_stringify s' = JSON_stringify s"
    "snapshot_of s' = snapshot_of s" "observable s' = observable s"
  using assms
  by (simp_all add: Object_entries_def Object_values_def Object_keys_def resolve_def
      getTotalQuantity_def getTotalPrice_def isEmpty_def getCheckoutUrl_def JSON_stringify_def
      snapshot_of_def observable_def)

lemma saveToStorage_frame [simp]:
  "items (saveToStorage s) = items s" "observers (saveToStorage s) = observers s"
  "objs (saveToStorage s) = objs s" "lines (saveToStorage s) = lines s"
  "next_obj (saveToStorage s) = next_obj s" "next_line (saveToStorage s) = next_line s"
  "proto_price (saveToStorage s) = proto_price s" "throws (saveToStorage s) = throws s"
  "calls (saveToStorage s) = calls s"
  by (simp_all add: saveToStorage_def split: sum.splits)

lemma call_observer_frame [simp]:
  "items (call_observer l d s) = items s" "observers (call_observer l d s) = observers s"
  "objs (call_observer l d s) = objs s" "lines (call_observer l d s) = lines s"
  "next_obj (call_observer l d s) = next_obj s" "next_line (call_observer l d s) = next_line s"
  "proto_price (call_observer l d s) = proto_price s" "throws (call_observer l d s) = throws s"
  "session (call_observer l d s) = session s"
  by (simp_all add: call_observer_def Let_def)

lemma seen_call_observer [simp]: "seen (call_observer l d' s) d = seen s d"
  by (simp add: seen_def resolve_def)

lemma forEach_observer_frame [simp]:
  "items (forEach_observer ls d s) = items s" "observers (forEach_observer ls d s) = observers s"
  "objs (forEach_observer ls d s) = objs s" "lines (forEach_observer ls d s) = lines s"
  "next_obj (forEach_observer ls d s) = next_obj s" "next_line (forEach_observer ls d s) = next_line s"
  "proto_price (forEach_observer ls d s) = proto_price s" "throws (forEach_observer ls d s) = throws s"
  "session (forEach_observer ls d s) = session s"
  by (induction ls arbitrary: s; simp)+

lemma call_observer_calls [simp]: "calls (call_observer l d s) = calls s @ [(l, seen s d)]"
  by (simp add: call_observer_def Let_def)

lemma call_observer_console [simp]:
  "console (call_observer l d s) =
     console s @ (if throws s l (seen s d) then [Observer_error l] else [])"
  by (simp add: call_observer_def Let_def)

lemma forEach_observer_calls:
  "calls (forEach_observer ls d s) = calls s @ map (\<lambda>l. (l, seen s d)) ls"
  by (induction ls arbitrary: s) simp_all

lemma forEach_observer_console:
  "console (forEach_observer ls d s) =
     console s @ map Observer_error (filter (\<lambda>l. throws s l (seen s d)) ls)"
  by (induction ls arbitrary: s) simp_all

lemma notifyObservers_frame [simp]:
  "items (notifyObservers s) = items s" "observers (notifyObservers s) = observers s"
  "lines (notifyObservers s) = lines s" "next_line (notifyObservers s) = next_line s"
  "proto_price (notifyObservers s) = proto_price s" "throws (notifyObservers s) = throws s"
  "session (notifyObservers s) = session s"
  "next_obj (notifyObservers s) = Suc (next_obj s)"
  "objs (notifyObservers s) = (objs s)(next_obj s := spread (objs s (items s)))"
  by (simp_all add: notifyObservers_def new_obj_def)

lemma notifyObservers_same:
  assumes "items s < next_obj s"
  shows "Object_entries (notifyObservers s) = Object_entries s"
    "Object_values (notifyObservers s) = Object_values s"
    "Object_keys (notifyObservers s) = Object_keys s"
    "getTotalQuantity (notifyObservers s) = getTotalQuantity s"
    "getTotalPrice (notifyObservers s) = getTotalPrice s"
    "isEmpty (notifyObservers s) = isEmpty s"
    "getCheckoutUrl (notifyObservers s) = getCheckoutUrl s"
    "JSON_stringify (notifyObservers s) = JSON_stringify s"
    "snapshot_of (notifyObservers s) = snapshot_of s"
    "observable (notifyObservers s) = observable s"
  using assms by (intro same_items; simp)+

lemma saveToStorage_same [simp]:
  shows "Object_entries (saveToStorage s) = Object_entries s"
    "Object_values (saveToStorage s) = Object_values s"
    "Object_keys (saveToStorage s) = Object_keys s"
    "getTotalQuantity (saveToStorage s) = getTotalQuantity s"
    "getTotalPrice (saveToStorage s) = getTotalPrice s"
    "isEmpty (saveToStorage s) = isEmpty s"
    "getCheckoutUrl (saveToStorage s) = getCheckoutUrl s"
    "JSON_stringify (saveToStorage s) = JSON_stringify s"
    "snapshot_of (saveToStorage s) = snapshot_of s"
    "observable (saveToStorage s) = observable s"
  by (intro same_items; simp)+

lemma seen_copy:
  assumes "items s < next_obj s" "js_ordered (objs s (items s))"
    and "s1 = s\<lparr>objs := (objs s)(next_obj s := spread (objs s (items s))), next_obj := Suc (next_obj s)\<rparr>"
  shows "seen s1 \<lparr>data_items = next_obj s, totalQuantity = getTotalQuantity s1,
           totalPrice = getTotalPrice s1\<rparr> = snapshot_of s"
proof -
  have "getTotalQuantity s1 = getTotalQuantity s" "getTotalPrice s1 = getTotalPrice s"
    using assms by (intro same_items; simp)+
  moreover have "resolve s1 (next_obj s) = Object_entries s"
    using assms by (simp add: resolve_def Object_entries_def spread_id)
  ultimately show ?thesis by (simp add: seen_def snapshot_of_def)
qed

lemma notifyObservers_calls:
  assumes "items s < next_obj s" "js_ordered (objs s (items s))"
  shows "calls (notifyObservers s) = calls s @ map (\<lambda>l. (l, snapshot_of s)) (observers s)"
  using seen_copy[OF assms refl]
  by (simp add: notifyObservers_def new_obj_def forEach_observer_calls)

lemma notifyObservers_console:
  assumes "items s < next_obj s" "js_ordered (objs s (items s))"
  shows "console (notifyObservers s) =
     console s @ map Observer_error (filter (\<lambda>l. throws s l (snapshot_of s)) (observers s))"
  using seen_copy[OF assms refl]
  by (simp add: notifyObservers_def new_obj_def forEach_observer_console)

subsection \<open>Entries under updates of the heap\<close>

lemma map_insert_prop:
  "map (\<lambda>(k, a). (k, f a)) (insert_prop k v ps) = insert_prop k (f v) (map (\<lambda>(k, a). (k, f a)) ps)"
  by (induction ps) auto

lemma map_put_prop:
  "map (\<lambda>(k, a). (k, f a)) (put_prop k v ps) = put_prop k (f v) (map (\<lambda>(k, a). (k, f a)) ps)"
proof -
  have "fst ` set (map (\<lambda>(k, a). (k, f a)) ps) = fst ` set ps" by force
  moreover have "map (\<lambda>(k, a). (k, f a)) (map (\<lambda>(k', v'). if k' = k then (k', v) else (k', v')) ps)
      = map (\<lambda>(k', v'). if k' = k then (k', f v) else (k', v')) (map (\<lambda>(k, a). (k, f a)) ps)"
    by (induction ps) auto
  ultimately show ?thesis
    unfolding put_prop_def by (simp add: map_insert_prop del: set_map)
qed

lemma map_delete_prop:
  "map (\<lambda>(k, a). (k, f a)) (delete_prop k ps) = delete_prop k (map (\<lambda>(k, a). (k, f a)) ps)"
  by (induction ps) (auto simp: delete_prop_def)

lemma map_lines_cong:
  "\<forall>a \<in> snd ` set ps. L' a = L a \<Longrightarrow>
   map (\<lambda>(k, a). (k, L' a)) ps = map (\<lambda>(k, a). (k, L a)) ps"
  by (induction ps) auto

lemma same_ref_same_key:
  assumes "distinct (map snd ps)" "(k, a) \<in> set ps" "(k', a) \<in> set ps"
  shows "k' = k"
  using assms by (induction ps) (auto simp: image_iff)

lemma same_key_same_ref:
  assumes "distinct (map fst ps)" "(k, a) \<in> set ps" "(k, a') \<in> set ps"
  shows "a' = a"
  using assms by (induction ps) (auto simp: image_iff)

lemma update_entry:
  assumes "distinct (map snd ps)" "distinct (map fst ps)" "map_of ps k = Some a"
  shows "map (\<lambda>(k', a'). (k', (L(a := v)) a')) ps = put_prop k v (map (\<lambda>(k', a'). (k', L a')) ps)"
proof -
  have mem: "(k, a) \<in> set ps" using assms(3) by (rule map_of_SomeD)
  then have kin: "k \<in> fst ` set (map (\<lambda>(k', a'). (k', L a')) ps)" by force
  have eq: "(case x of (k', a') \<Rightarrow> (k', (L(a := v)) a')) =
       ((\<lambda>(k', v'). if k' = k then (k', v) else (k', v')) \<circ> (\<lambda>(k', a'). (k', L a'))) x"
    if x: "x \<in> set ps" for x
  proof -
    obtain k' a' where xe: "x = (k', a')" by (cases x)
    have "a' = a \<longleftrightarrow> k' = k"
      using same_ref_same_key[OF assms(1) mem] same_key_same_ref[OF assms(2) mem] x xe by blast
    then show ?thesis by (auto simp: xe)
  qed
  have "map (\<lambda>(k', a'). (k', (L(a := v)) a')) ps
      = map ((\<lambda>(k', v'). if k' = k then (k', v) else (k', v')) \<circ> (\<lambda>(k', a'). (k', L a'))) ps"
    by (rule map_cong[OF refl]) (use eq in blast)
  then have "map (\<lambda>(k', a'). (k', (L(a := v)) a')) ps
      = map (\<lambda>(k', v'). if k' = k then (k', v) else (k', v')) (map (\<lambda>(k', a'). (k', L a')) ps)"
    by simp
  then show ?thesis using kin unfolding put_prop_def by simp
qed

lemma delete_entry:
  assumes "distinct (map snd ps)" "map_of ps k = Some a"
  shows "map (\<lambda>(k', a'). (k', (L(a := v)) a')) (delete_prop k ps)
       = delete_prop k (map (\<lambda>(k', a'). (k', L a')) ps)"
proof -
  have mem: "(k, a) \<in> set ps" using assms(2) by (rule map_of_SomeD)
  have "\<forall>a' \<in> snd ` set (delete_prop k ps). (L(a := v)) a' = L a'"
  proof
    fix a' assume "a' \<in> snd ` set (delete_prop k ps)"
    then obtain k' where "(k', a') \<in> set ps" "k' \<noteq> k" by (auto simp: delete_prop_def)
    with same_ref_same_key[OF assms(1) mem] have "a' \<noteq> a" by blast
    then show "(L(a := v)) a' = L a'" by simp
  qed
  then have "map (\<lambda>(k', a'). (k', (L(a := v)) a')) (delete_prop k ps)
      = map (\<lambda>(k', a'). (k', L a')) (delete_prop k ps)"
    by (rule map_lines_cong)
  then show ?thesis by (simp add: map_delete_prop)
qed

lemma new_entry:
  assumes "\<forall>a' \<in> snd ` set ps. a' < (a::nat)"
  shows "map (\<lambda>(k', a'). (k', (L(a := v)) a')) (put_prop k a ps)
       = put_prop k v (map (\<lambda>(k', a'). (k', L a')) ps)"
proof -
  have old: "map (\<lambda>(k', a'). (k', (L(a := v)) a')) ps = map (\<lambda>(k', a'). (k', L a')) ps"
  proof (rule map_lines_cong, rule ballI)
    fix a' assume "a' \<in> snd ` set ps"
    with assms have "a' < a" by blast
    then show "(L(a := v)) a' = L a'" by simp
  qed
  have "map (\<lambda>(k', a'). (k', (L(a := v)) a')) (put_prop k a ps)
      = put_prop k ((L(a := v)) a) (map (\<lambda>(k', a'). (k', (L(a := v)) a')) ps)"
    by (rule map_put_prop)
  then show ?thesis by (simp only: old fun_upd_same)
qed

subsection \<open>The paths of addItem and removeItem\<close>

lemma get_prop_own: "map_of (objs s (items s)) k = Some a \<Longrightarrow> get_prop s k = Own a"
  by (simp add: get_prop_def)

lemma falsy_not_own: "\<not> truthy_prop (get_prop s k) \<Longrightarrow> map_of (objs s (items s)) k = None"
  by (cases "map_of (objs s (items s)) k") (simp_all add: get_prop_def)

lemma get_prop_cases:
  obtains (own) a where "map_of (objs s (items s)) k = Some a" "get_prop s k = Own a"
  | (obj) "map_of (objs s (items s)) k = None" "get_prop s k = Proto_object"
  | (num) n where "map_of (objs s (items s)) k = None" "get_prop s k = Proto_number n" "truthy n"
  | (falsy) "map_of (objs s (items s)) k = None" "\<not> truthy_prop (get_prop s k)"
proof (cases "get_prop s k")
  case (Own a)
  then have "map_of (objs s (items s)) k = Some a"
    by (auto simp: get_prop_def split: option.splits if_splits)
  with Own show ?thesis using own by blast
next
  case Proto_object
  then have "map_of (objs s (items s)) k = None"
    by (auto simp: get_prop_def split: option.splits if_splits)
  with Proto_object show ?thesis using obj by blast
next
  case (Proto_number n)
  then have "map_of (objs s (items s)) k = None"
    by (auto simp: get_prop_def split: option.splits if_splits)
  with Proto_number show ?thesis using num falsy by (cases "truthy n") auto
next
  case Undefined
  then have "map_of (objs s (items s)) k = None"
    by (auto simp: get_prop_def split: option.splits if_splits)
  with Undefined show ?thesis using falsy by simp
qed

lemma line_item_updates [simp]:
  "r\<lparr>quantity := q, price := p\<rparr> = \<lparr>quantity = q, price = p\<rparr>"
  "r\<lparr>quantity := q\<rparr> = \<lparr>quantity = q, price = price r\<rparr>"
  "r\<lparr>price := p\<rparr> = \<lparr>quantity = quantity r, price = p\<rparr>"
  by (cases r; simp)+

lemma addItem_own:
  assumes "k \<noteq> []" "map_of (objs s (items s)) k = Some a"
  shows "addItem (Some k) parg s =
     Inr (Fin (of_int (to_double (quantity (lines s a) + 1))),
          notifyObservers (saveToStorage
            (s\<lparr>lines := (lines s)(a :=
                 \<lparr>quantity = to_double (quantity (lines s a) + 1),
                  price = (if js_gt_zero (default_zero parg) then Num (default_zero parg)
                           else price (lines s a))\<rparr>)\<rparr>)))"
  using assms
  by (simp add: addItem_def get_prop_own Let_def set_quantity_def set_price_def)

lemma addItem_new:
  assumes "k \<noteq> []" "\<not> truthy_prop (get_prop s k)"
  shows "addItem (Some k) parg s =
     Inr (Fin 1,
          notifyObservers (saveToStorage
            (s\<lparr>lines := (lines s)(next_line s := \<lparr>quantity = 1, price = Num (default_zero parg)\<rparr>),
               next_line := Suc (next_line s),
               objs := (objs s)(items s := put_prop k (next_line s) (objs s (items s)))\<rparr>)))"
proof -
  have "get_prop (create_line k (default_zero parg) s) k = Own (next_line s)"
    by (simp add: create_line_def new_line_def get_prop_def map_of_put_prop)
  moreover have "(if js_gt_zero (default_zero parg)
        then set_price (next_line s) (Num (default_zero parg))
               (set_quantity (next_line s) (to_double (quantity (lines (create_line k (default_zero parg) s) (next_line s)) + 1))
                  (create_line k (default_zero parg) s))
        else set_quantity (next_line s) (to_double (quantity (lines (create_line k (default_zero parg) s) (next_line s)) + 1))
               (create_line k (default_zero parg) s))
      = s\<lparr>lines := (lines s)(next_line s := \<lparr>quantity = 1, price = Num (default_zero parg)\<rparr>),
           next_line := Suc (next_line s),
           objs := (objs s)(items s := put_prop k (next_line s) (objs s (items s)))\<rparr>"
    by (intro store.equality)
      (simp_all add: create_line_def new_line_def set_quantity_def set_price_def to_double_small)
  ultimately show ?thesis
    using assms
    by (simp add: addItem_def Let_def)
qed

lemma addItem_proto:
  assumes "k \<noteq> []" "get_prop s k = Proto_object"
  shows "addItem (Some k) parg s =
     Inr (NaN, notifyObservers (saveToStorage
            (if js_gt_zero (default_zero parg) \<and> k = ''__proto__''
             then s\<lparr>proto_price := Some (default_zero parg)\<rparr> else s)))"
  using assms by (simp add: addItem_def Let_def)

lemma addItem_type_error:
  assumes "k \<noteq> []" "get_prop s k = Proto_number n" "truthy n"
  shows "addItem (Some k) parg s = Inl (TypeError, s)"
  using assms by (simp add: addItem_def Let_def)

lemma addItem_no_id:
  "addItem None parg s = Inl (Error ''Variant ID is required'', s)"
  "addItem (Some []) parg s = Inl (Error ''Variant ID is required'', s)"
  by (simp_all add: addItem_def Let_def)

lemma removeItem_own:
  assumes "k \<noteq> []" "map_of (objs s (items s)) k = Some a"
  shows "removeItem (Some k) s =
     (if quantity (lines s a) - 1 \<le> 0 then
        Inr (Fin 0, notifyObservers (saveToStorage
          (s\<lparr>lines := (lines s)(a := (lines s a)\<lparr>quantity := to_double (quantity (lines s a) - 1)\<rparr>),
             objs := (objs s)(items s := delete_prop k (objs s (items s)))\<rparr>)))
      else
        Inr (Fin (of_int (to_double (quantity (lines s a) - 1))), notifyObservers (saveToStorage
          (s\<lparr>lines := (lines s)(a := (lines s a)\<lparr>quantity := to_double (quantity (lines s a) - 1)\<rparr>)\<rparr>))))"
  using assms
  by (simp add: removeItem_def get_prop_own Let_def set_quantity_def)

lemma removeItem_absent:
  assumes "\<not> truthy_prop (get_prop s k)"
  shows "removeItem (Some k) s = Inr (Fin 0, s)"
  using assms by (simp add: removeItem_def)

lemma removeItem_no_id:
  "removeItem None s = Inr (Fin 0, s)" "removeItem (Some []) s = Inr (Fin 0, s)"
  by (simp_all add: removeItem_def)

lemma removeItem_proto:
  assumes "k \<noteq> []" "get_prop s k = Proto_object"
  shows "removeItem (Some k) s = Inr (NaN, notifyObservers (saveToStorage s))"
  using assms by (simp add: removeItem_def Let_def)

lemma removeItem_type_error:
  assumes "k \<noteq> []" "get_prop s k = Proto_number n" "truthy n"
  shows "removeItem (Some k) s = Inl (TypeError, s)"
  using assms by (simp add: removeItem_def Let_def)

lemma clearCart_eq:
  "clearCart s = notifyObservers (saveToStorage
     (s\<lparr>objs := (objs s)(next_obj s := []), next_obj := Suc (next_obj s), items := next_obj s\<rparr>))"
  by (simp add: clearCart_def new_obj_def)

subsection \<open>Stores that exist stay so\<close>

lemma store_okD:
  assumes "store_ok s"
  shows "items s < next_obj s" "js_ordered (objs s (items s))" "distinct (map snd (objs s (items s)))"
    "distinct (map fst (objs s (items s)))" "\<And>k a. (k, a) \<in> set (objs s (items s)) \<Longrightarrow> a < next_line s"
    "distinct (observers s)"
  using assms by (auto simp: store_ok_def js_ordered_def)

lemma keys_update_set:
  "fst ` set (map (\<lambda>(k', v'). if k' = k then (k', v) else (k', v')) ps) = fst ` set ps"
  by (induction ps) auto

lemma refs_put_prop: "snd ` set (put_prop k v ps) \<subseteq> insert v (snd ` set ps)"
  by (auto simp: put_prop_def set_insert_prop image_iff split: if_splits)

lemma distinct_refs_insert:
  "distinct (map snd ps) \<Longrightarrow> v \<notin> snd ` set ps \<Longrightarrow> distinct (map snd (insert_prop k v ps))"
  by (induction ps) (auto simp: set_insert_prop)

lemma set_delete_prop: "set (delete_prop k ps) \<subseteq> set ps"
  by (auto simp: delete_prop_def)

lemma distinct_refs_delete: "distinct (map snd ps) \<Longrightarrow> distinct (map snd (delete_prop k ps))"
  by (simp add: delete_prop_def distinct_map_filter)

lemma store_ok_saveToStorage [simp]: "store_ok (saveToStorage s) = store_ok s"
  by (simp add: store_ok_def)

lemma store_ok_notifyObservers: "store_ok s \<Longrightarrow> store_ok (notifyObservers s)"
  by (simp add: store_ok_def)

lemma store_ok_line:
  assumes "store_ok s"
  shows "store_ok (s\<lparr>lines := L\<rparr>)"
  using assms by (simp add: store_ok_def)

lemma store_ok_new:
  assumes "store_ok s" "map_of (objs s (items s)) k = None"
  shows "store_ok (s\<lparr>lines := L, next_line := Suc (next_line s),
            objs := (objs s)(items s := put_prop k (next_line s) (objs s (items s)))\<rparr>)"
proof -
  have fresh: "next_line s \<notin> snd ` set (objs s (items s))"
    using store_okD(5)[OF assms(1)] by fastforce
  have nk: "k \<notin> fst ` set (objs s (items s))"
    using assms(2) by (simp add: map_of_eq_None_iff)
  have "distinct (map snd (put_prop k (next_line s) (objs s (items s))))"
    using nk fresh store_okD(3)[OF assms(1)] by (simp add: put_prop_def distinct_refs_insert)
  moreover have "\<forall>a \<in> snd ` set (put_prop k (next_line s) (objs s (items s))). a < Suc (next_line s)"
    using nk store_okD(5)[OF assms(1)] by (fastforce simp: put_prop_def set_insert_prop)
  ultimately show ?thesis
    using assms(1) by (simp add: store_ok_def js_ordered_put_prop)
qed

lemma store_ok_delete:
  assumes "store_ok s"
  shows "store_ok (s\<lparr>lines := L, objs := (objs s)(items s := delete_prop k (objs s (items s)))\<rparr>)"
proof -
  have "\<forall>a \<in> snd ` set (delete_prop k (objs s (items s))). a < next_line s"
    using store_okD(5)[OF assms] set_delete_prop[of k "objs s (items s)"] by fastforce
  then show ?thesis
    using assms by (simp add: store_ok_def js_ordered_delete_prop distinct_refs_delete)
qed

lemma store_ok_clear:
  "distinct (observers s) \<Longrightarrow>
   store_ok (s\<lparr>objs := (objs s)(next_obj s := []), next_obj := Suc (next_obj s), items := next_obj s\<rparr>)"
  by (simp add: store_ok_def js_ordered_def)

lemma store_ok_proto_price: "store_ok (s\<lparr>proto_price := p\<rparr>) = store_ok s"
  by (simp add: store_ok_def)

subsection \<open>The entries after a change\<close>

lemma entries_own:
  assumes "store_ok s" "map_of (objs s (items s)) k = Some a"
  shows "Object_entries (s\<lparr>lines := (lines s)(a := v)\<rparr>) = put_prop k v (Object_entries s)"
  using update_entry[OF store_okD(3,4)[OF assms(1)] assms(2), of "lines s" v]
  by (simp add: Object_entries_def resolve_def)

lemma entries_new:
  assumes "store_ok s"
  shows "Object_entries (s\<lparr>lines := (lines s)(next_line s := v), next_line := Suc (next_line s),
            objs := (objs s)(items s := put_prop k (next_line s) (objs s (items s)))\<rparr>)
         = put_prop k v (Object_entries s)"
proof -
  have "\<forall>a' \<in> snd ` set (objs s (items s)). a' < next_line s"
    using store_okD(5)[OF assms] by fastforce
  from new_entry[OF this, of "lines s" v k] show ?thesis
    by (simp add: Object_entries_def resolve_def)
qed

lemma entries_delete:
  assumes "store_ok s" "map_of (objs s (items s)) k = Some a"
  shows "Object_entries (s\<lparr>lines := (lines s)(a := v),
            objs := (objs s)(items s := delete_prop k (objs s (items s)))\<rparr>)
         = delete_prop k (Object_entries s)"
  using delete_entry[OF store_okD(3)[OF assms(1)] assms(2), of "lines s" v]
  by (simp add: Object_entries_def resolve_def)

lemma map_of_map_values: "map_of (map (\<lambda>(k, a). (k, f a)) ps) k = map_option f (map_of ps k)"
  by (induction ps) auto

lemma map_of_entries: "map_of (Object_entries s) k = map_option (lines s) (map_of (objs s (items s)) k)"
  by (simp add: Object_entries_def resolve_def map_of_map_values)

lemma keys_entries: "map fst (Object_entries s) = Object_keys s"
  by (simp add: Object_entries_def resolve_def Object_keys_def split_def comp_def)

lemma values_entries: "map snd (Object_entries s) = Object_values s"
  by (simp add: Object_entries_def resolve_def Object_values_def split_def comp_def)

subsection \<open>Saving and notifying, together\<close>

lemma published:
  assumes "store_ok x"
  shows "store_ok (notifyObservers (saveToStorage x))"
    "Object_entries (notifyObservers (saveToStorage x)) = Object_entries x"
    "Object_values (notifyObservers (saveToStorage x)) = Object_values x"
    "Object_keys (notifyObservers (saveToStorage x)) = Object_keys x"
    "snapshot_of (notifyObservers (saveToStorage x)) = snapshot_of x"
    "observable (notifyObservers (saveToStorage x)) = observable x"
    "JSON_stringify (notifyObservers (saveToStorage x)) = JSON_stringify x"
    "calls (notifyObservers (saveToStorage x)) = calls x @ map (\<lambda>l. (l, snapshot_of x)) (observers x)"
    "console (notifyObservers (saveToStorage x)) =
       console (saveToStorage x) @ map Observer_error (filter (\<lambda>l. throws x l (snapshot_of x)) (observers x))"
    "session (notifyObservers (saveToStorage x)) = session (saveToStorage x)"
proof -
  have ok: "store_ok (saveToStorage x)" using assms by simp
  show "store_ok (notifyObservers (saveToStorage x))" using ok by (rule store_ok_notifyObservers)
  have lt: "items (saveToStorage x) < next_obj (saveToStorage x)" using store_okD(1)[OF ok] .
  have ord: "js_ordered (objs (saveToStorage x) (items (saveToStorage x)))" using store_okD(2)[OF ok] .
  show "Object_entries (notifyObservers (saveToStorage x)) = Object_entries x"
    "Object_values (notifyObservers (saveToStorage x)) = Object_values x"
    "Object_keys (notifyObservers (saveToStorage x)) = Object_keys x"
    "snapshot_of (notifyObservers (saveToStorage x)) = snapshot_of x"
    "observable (notifyObservers (saveToStorage x)) = observable x"
    "JSON_stringify (notifyObservers (saveToStorage x)) = JSON_stringify x"
    using notifyObservers_same[OF lt] by simp_all
  show "calls (notifyObservers (saveToStorage x)) = calls x @ map (\<lambda>l. (l, snapshot_of x)) (observers x)"
    using notifyObservers_calls[OF lt ord] by simp
  show "console (notifyObservers (saveToStorage x)) =
       console (saveToStorage x) @ map Observer_error (filter (\<lambda>l. throws x l (snapshot_of x)) (observers x))"
    using notifyObservers_console[OF lt ord] by simp
  show "session (notifyObservers (saveToStorage x)) = session (saveToStorage x)" by simp
qed

lemma observer_errors_saveToStorage:
  "filter (\<lambda>e. case e of Observer_error l \<Rightarrow> True | _ \<Rightarrow> False) (console (saveToStorage x)) =
   filter (\<lambda>e. case e of Observer_error l \<Rightarrow> True | _ \<Rightarrow> False) (console x)"
  by (simp add: saveToStorage_def split: sum.splits)

lemma published_notified:
  assumes "store_ok x" "calls x = calls s" "observers x = observers s" "console x = console s"
    "throws x = throws s"
  shows "notified s (notifyObservers (saveToStorage x))"
  using assms published(5,8,9)[OF assms(1)]
  by (simp add: notified_def observer_errors_saveToStorage)

subsection \<open>Running the cart on given inputs\<close>

lemmas run_defs =
  empty_cart_def ShoppingCart_def page_def no_storage_def quiet_def loadFromStorage_def
  getItem_def setItem_def new_obj_def new_line_def addItem_def removeItem_def clearCart_def
  default_zero_def get_prop_def Object_prototype_keys_def create_line_def set_quantity_def
  set_price_def put_prop_def delete_prop_def precedes_def array_index_def digit_of_def
  saveToStorage_def JSON_stringify_def json_of_line_def notifyObservers_def spread_def
  call_observer_def seen_def Object_entries_def Object_values_def Object_keys_def resolve_def
  getTotalQuantity_def getTotalPrice_def getAllItems_def isEmpty_def Let_def to_double_small

lemma ShoppingCart_new_session: "ShoppingCart (page no_storage quiet) = Some empty_cart"
  by (simp add: empty_cart_def ShoppingCart_def page_def no_storage_def loadFromStorage_def
      getItem_def new_obj_def)

lemma store_ok_empty_cart: "store_ok empty_cart"
  by (simp add: store_ok_def js_ordered_def run_defs)

lemma store_ok_addItem: "store_ok s \<Longrightarrow> store_ok (after (addItem variantId price_arg s))"
proof (cases variantId)
  case None
  assume "store_ok s"
  then show ?thesis by (simp add: None addItem_no_id)
next
  case (Some k)
  assume ok: "store_ok s"
  show ?thesis
  proof (cases "k = []")
    case True
    then show ?thesis using ok by (simp add: Some addItem_no_id)
  next
    case False
    show ?thesis
    proof (cases rule: get_prop_cases[of s k])
      case (own a)
      then show ?thesis
        using ok False by (simp add: Some addItem_own published(1) store_ok_line)
    next
      case obj
      then show ?thesis
        using ok False by (simp add: Some addItem_proto published(1) store_ok_proto_price)
    next
      case (num n)
      then show ?thesis using ok False by (simp add: Some addItem_type_error)
    next
      case falsy
      then show ?thesis
        using ok False by (simp add: Some addItem_new published(1) store_ok_new)
    qed
  qed
qed

lemma published_persisted:
  assumes "store_ok x" "session x = session s"
  shows "persisted s (notifyObservers (saveToStorage x))"
proof -
  have "session (saveToStorage x) =
      (if setItem_throws (session x) then session x
       else (session x)\<lparr>content := Some (JSON_stringify x)\<rparr>)"
    by (simp add: saveToStorage_def setItem_def)
  then show ?thesis
    unfolding persisted_def published(7)[OF assms(1)] using assms(2) by simp
qed

lemma store_ok_removeItem: "store_ok s \<Longrightarrow> store_ok (after (removeItem variantId s))"
proof (cases variantId)
  case None
  assume "store_ok s"
  then show ?thesis by (simp add: None removeItem_no_id)
next
  case (Some k)
  assume ok: "store_ok s"
  show ?thesis
  proof (cases "k = []")
    case True
    then show ?thesis using ok by (simp add: Some removeItem_no_id)
  next
    case False
    show ?thesis
    proof (cases rule: get_prop_cases[of s k])
      case (own a)
      then show ?thesis
        using ok False by (simp add: Some removeItem_own published(1) store_ok_line store_ok_delete)
    next
      case obj
      then show ?thesis
        using ok False by (simp add: Some removeItem_proto published(1))
    next
      case (num n)
      then show ?thesis using ok False by (simp add: Some removeItem_type_error)
    next
      case falsy
      then show ?thesis
        using ok False by (simp add: Some removeItem_absent)
    qed
  qed
qed

lemma store_ok_clearCart: "store_ok s \<Longrightarrow> store_ok (clearCart s)"
  by (simp add: clearCart_eq published(1) store_ok_clear store_okD(6))

lemma removeItem_present:
  assumes ok: "store_ok s" and ne: "k \<noteq> []" and present: "map_of (Object_entries s) k = Some item"
  shows "\<exists>s'. removeItem (Some k) s =
              Inr (Fin (of_int (if quantity item - 1 \<le> 0 then 0 else to_double (quantity item - 1))), s') \<and>
            map_of (Object_entries s') =
              (if quantity item - 1 \<le> 0 then (map_of (Object_entries s))(k := None)
               else (map_of (Object_entries s))(k \<mapsto> item\<lparr>quantity := to_double (quantity item - 1)\<rparr>)) \<and>
            persisted s s' \<and> notified s s'"
proof -
  from present obtain r where r: "map_of (objs s (items s)) k = Some r" and item: "item = lines s r"
    by (auto simp: map_of_entries)
  show ?thesis
  proof (cases "quantity item - 1 \<le> 0")
    case True
    let ?x = "s\<lparr>lines := (lines s)(r := (lines s r)\<lparr>quantity := to_double (quantity (lines s r) - 1)\<rparr>),
               objs := (objs s)(items s := delete_prop k (objs s (items s)))\<rparr>"
    have okx: "store_ok ?x" using ok by (rule store_ok_delete)
    have "removeItem (Some k) s = Inr (Fin 0, notifyObservers (saveToStorage ?x))"
      using True by (simp add: removeItem_own[OF ne r] item)
    moreover have "map_of (Object_entries (notifyObservers (saveToStorage ?x))) = (map_of (Object_entries s))(k := None)"
      by (simp only: published(2)[OF okx] entries_delete[OF ok r] map_of_delete_prop)
    moreover have "persisted s (notifyObservers (saveToStorage ?x))"
      by (rule published_persisted[OF okx]) simp
    moreover have "notified s (notifyObservers (saveToStorage ?x))"
      by (rule published_notified[OF okx]) simp_all
    ultimately show ?thesis using True by simp
  next
    case False
    let ?x = "s\<lparr>lines := (lines s)(r := (lines s r)\<lparr>quantity := to_double (quantity (lines s r) - 1)\<rparr>)\<rparr>"
    have okx: "store_ok ?x" using ok by (rule store_ok_line)
    have "removeItem (Some k) s = Inr (Fin (of_int (to_double (quantity item - 1))), notifyObservers (saveToStorage ?x))"
      using False by (simp add: removeItem_own[OF ne r] item)
    moreover have "map_of (Object_entries (notifyObservers (saveToStorage ?x))) =
        (map_of (Object_entries s))(k \<mapsto> item\<lparr>quantity := to_double (quantity item - 1)\<rparr>)"
      by (simp only: published(2)[OF okx] entries_own[OF ok r] map_of_put_prop item)
    moreover have "persisted s (notifyObservers (saveToStorage ?x))"
      by (rule published_persisted[OF okx]) simp
    moreover have "notified s (notifyObservers (saveToStorage ?x))"
      by (rule published_notified[OF okx]) simp_all
    ultimately show ?thesis using False by simp
  qed
qed

lemmas load_defs = line_of_json_def

subsection \<open>The invariant\<close>

lemma values_put_prop: "snd ` set (put_prop k v ps) \<subseteq> insert v (snd ` set ps)"
  by (rule refs_put_prop)

lemma cart_inv_entries: "cart_inv s = (\<forall>item \<in> snd ` set (Object_entries s). 1 \<le> quantity item)"
  by (simp add: cart_inv_def values_entries[symmetric])

lemma cart_inv_put:
  assumes "cart_inv s" "Object_entries s' = put_prop k v (Object_entries s)" "1 \<le> quantity v"
  shows "cart_inv s'"
proof -
  have "snd ` set (Object_entries s') \<subseteq> insert v (snd ` set (Object_entries s))"
    using values_put_prop[of k v "Object_entries s"] assms(2) by simp
  then show ?thesis
    using assms(1,3) unfolding cart_inv_entries by blast
qed

lemma cart_inv_delete:
  assumes "cart_inv s" "Object_entries s' = delete_prop k (Object_entries s)"
  shows "cart_inv s'"
proof -
  have "snd ` set (Object_entries s') \<subseteq> snd ` set (Object_entries s)"
    using set_delete_prop[of k "Object_entries s"] assms(2) by auto
  then show ?thesis
    using assms(1) unfolding cart_inv_entries by blast
qed

lemma cart_inv_same:
  assumes "cart_inv s" "Object_entries s' = Object_entries s"
  shows "cart_inv s'"
  using assms unfolding cart_inv_entries by simp

lemma cart_inv_own:
  assumes "cart_inv s" "map_of (objs s (items s)) k = Some a"
  shows "1 \<le> quantity (lines s a)"
proof -
  have "(k, a) \<in> set (objs s (items s))" using assms(2) by (rule map_of_SomeD)
  then have "lines s a \<in> set (Object_values s)" by (force simp: Object_values_def)
  with assms(1) show ?thesis by (simp add: cart_inv_def)
qed

lemma entries_proto_price [simp]: "Object_entries (s\<lparr>proto_price := p\<rparr>) = Object_entries s"
  by (simp add: Object_entries_def resolve_def)

lemma cart_inv_addItem:
  assumes "store_ok s" "cart_inv s"
  shows "cart_inv (after (addItem variantId price_arg s))"
proof (cases variantId)
  case None
  then show ?thesis using assms(2) by (simp add: addItem_no_id)
next
  case (Some k)
  show ?thesis
  proof (cases "k = []")
    case True
    then show ?thesis using assms(2) by (simp add: Some addItem_no_id)
  next
    case False
    show ?thesis
    proof (cases rule: get_prop_cases[of s k])
      case (own a)
      let ?v = "\<lparr>quantity = to_double (quantity (lines s a) + 1),
                 price = (if js_gt_zero (default_zero price_arg) then Num (default_zero price_arg)
                          else price (lines s a))\<rparr>"
      have "Object_entries (after (addItem (Some k) price_arg s)) = put_prop k ?v (Object_entries s)"
        by (simp add: addItem_own[OF False own(1)] published(2) store_ok_line[OF assms(1)]
            entries_own[OF assms(1) own(1)])
      moreover have "1 \<le> quantity ?v" using cart_inv_own[OF assms(2) own(1)] by simp
      ultimately show ?thesis unfolding Some using assms(2) cart_inv_put by blast
    next
      case obj
      have ok': "store_ok (if js_gt_zero (default_zero price_arg) \<and> k = ''__proto__''
             then s\<lparr>proto_price := Some (default_zero price_arg)\<rparr> else s)"
        using assms(1) by (simp add: store_ok_proto_price)
      have "Object_entries (after (addItem (Some k) price_arg s)) = Object_entries s"
        by (simp add: addItem_proto[OF False obj(2)] published(2)[OF ok'])
      then show ?thesis unfolding Some using assms(2) cart_inv_same by blast
    next
      case (num n)
      then show ?thesis using assms(2) False by (simp add: Some addItem_type_error)
    next
      case falsy
      let ?v = "\<lparr>quantity = 1, price = Num (default_zero price_arg)\<rparr>"
      have "Object_entries (after (addItem (Some k) price_arg s)) = put_prop k ?v (Object_entries s)"
        by (simp add: addItem_new[OF False falsy(2)] published(2) store_ok_new[OF assms(1) falsy(1)]
            entries_new[OF assms(1)])
      moreover have "1 \<le> quantity ?v" by simp
      ultimately show ?thesis unfolding Some using assms(2) cart_inv_put by blast
    qed
  qed
qed

lemma cart_inv_removeItem:
  assumes "store_ok s" "cart_inv s"
  shows "cart_inv (after (removeItem variantId s))"
proof (cases variantId)
  case None
  then show ?thesis using assms(2) by (simp add: removeItem_no_id)
next
  case (Some k)
  show ?thesis
  proof (cases "k = []")
    case True
    then show ?thesis using assms(2) by (simp add: Some removeItem_no_id)
  next
    case False
    show ?thesis
    proof (cases rule: get_prop_cases[of s k])
      case (own a)
      show ?thesis
      proof (cases "quantity (lines s a) - 1 \<le> 0")
        case True
        have "Object_entries (after (removeItem (Some k) s)) = delete_prop k (Object_entries s)"
          using True
          by (simp add: removeItem_own[OF False own(1)] published(2) store_ok_delete[OF assms(1)]
              entries_delete[OF assms(1) own(1)])
        then show ?thesis unfolding Some using assms(2) cart_inv_delete by blast
      next
        case gt: False
        let ?v = "(lines s a)\<lparr>quantity := to_double (quantity (lines s a) - 1)\<rparr>"
        have "Object_entries (after (removeItem (Some k) s)) = put_prop k ?v (Object_entries s)"
          using gt
          by (simp add: removeItem_own[OF False own(1)] published(2) store_ok_line[OF assms(1)]
              entries_own[OF assms(1) own(1)])
        moreover have "1 \<le> quantity ?v" using gt by simp
        ultimately show ?thesis unfolding Some using assms(2) cart_inv_put by blast
      qed
    next
      case obj
      have "Object_entries (after (removeItem (Some k) s)) = Object_entries s"
        by (simp add: removeItem_proto[OF False obj(2)] published(2)[OF assms(1)])
      then show ?thesis unfolding Some using assms(2) cart_inv_same by blast
    next
      case (num n)
      then show ?thesis using assms(2) False by (simp add: Some removeItem_type_error)
    next
      case falsy
      then show ?thesis using assms(2) by (simp add: Some removeItem_absent)
    qed
  qed
qed

lemma entries_clearCart: "store_ok s \<Longrightarrow> Object_entries (clearCart s) = []"
  by (simp add: clearCart_eq published(2) store_ok_clear store_okD(6))
     (simp add: Object_entries_def resolve_def)

lemma cart_inv_clearCart: "store_ok s \<Longrightarrow> cart_inv (clearCart s)"
  by (simp add: cart_inv_entries entries_clearCart)

subsection \<open>What an operation returns\<close>

lemma outcome_addItem:
  "outcome (addItem variantId price_arg s) =
     (case variantId of
        None \<Rightarrow> Inl (Error ''Variant ID is required'')
      | Some k \<Rightarrow>
          if k = [] then Inl (Error ''Variant ID is required'')
          else (case get_prop s k of
                  Own a \<Rightarrow> Inr (Fin (of_int (to_double (quantity (lines s a) + 1))))
                | Proto_object \<Rightarrow> Inr NaN
                | Proto_number n \<Rightarrow> if truthy n then Inl TypeError else Inr (Fin 1)
                | Undefined \<Rightarrow> Inr (Fin 1)))"
proof (cases variantId)
  case None
  then show ?thesis by (simp add: addItem_no_id)
next
  case (Some k)
  show ?thesis
  proof (cases "k = []")
    case True
    then show ?thesis by (simp add: Some addItem_no_id)
  next
    case False
    show ?thesis
    proof (cases rule: get_prop_cases[of s k])
      case (own a)
      then show ?thesis using False by (simp add: Some addItem_own)
    next
      case obj
      then show ?thesis using False by (simp add: Some addItem_proto)
    next
      case (num n)
      then show ?thesis using False by (simp add: Some addItem_type_error)
    next
      case falsy
      then show ?thesis using False
        by (cases "get_prop s k") (simp_all add: Some addItem_new)
    qed
  qed
qed

lemma outcome_removeItem:
  "outcome (removeItem variantId s) =
     (case variantId of
        None \<Rightarrow> Inr (Fin 0)
      | Some k \<Rightarrow>
          if k = [] then Inr (Fin 0)
          else (case get_prop s k of
                  Own a \<Rightarrow> Inr (Fin (of_int (if quantity (lines s a) - 1 \<le> 0 then 0
                                               else to_double (quantity (lines s a) - 1))))
                | Proto_object \<Rightarrow> Inr NaN
                | Proto_number n \<Rightarrow> if truthy n then Inl TypeError else Inr (Fin 0)
                | Undefined \<Rightarrow> Inr (Fin 0)))"
proof (cases variantId)
  case None
  then show ?thesis by (simp add: removeItem_no_id)
next
  case (Some k)
  show ?thesis
  proof (cases "k = []")
    case True
    then show ?thesis by (simp add: Some removeItem_no_id)
  next
    case False
    show ?thesis
    proof (cases rule: get_prop_cases[of s k])
      case (own a)
      then show ?thesis using False by (simp add: Some removeItem_own)
    next
      case obj
      then show ?thesis using False by (simp add: Some removeItem_proto)
    next
      case (num n)
      then show ?thesis using False by (simp add: Some removeItem_type_error)
    next
      case falsy
      then show ?thesis using False
        by (cases "get_prop s k") (simp_all add: Some removeItem_absent)
    qed
  qed
qed

lemma get_prop_throws [simp]: "get_prop (s\<lparr>throws := f\<rparr>) k = get_prop s k"
  by (simp add: get_prop_def cong: option.case_cong)

lemma get_prop_session [simp]: "get_prop (s\<lparr>session := st\<rparr>) k = get_prop s k"
  by (simp add: get_prop_def cong: option.case_cong)

lemma addItem_notified:
  assumes "store_ok s" "addItem variantId price_arg s = Inr (v, s')"
  shows "notified s s'"
proof (cases variantId)
  case None
  then show ?thesis using assms(2) by (simp add: addItem_no_id)
next
  case (Some k)
  show ?thesis
  proof (cases "k = []")
    case True
    then show ?thesis using assms(2) by (simp add: Some addItem_no_id)
  next
    case False
    show ?thesis
    proof (cases rule: get_prop_cases[of s k])
      case (own a)
      let ?x = "s\<lparr>lines := (lines s)(a :=
                 \<lparr>quantity = to_double (quantity (lines s a) + 1),
                  price = (if js_gt_zero (default_zero price_arg) then Num (default_zero price_arg)
                           else price (lines s a))\<rparr>)\<rparr>"
      have "s' = notifyObservers (saveToStorage ?x)"
        using assms(2) by (simp add: Some addItem_own[OF False own(1)])
      moreover have "notified s (notifyObservers (saveToStorage ?x))"
        by (rule published_notified[OF store_ok_line[OF assms(1)]]) simp_all
      ultimately show ?thesis by simp
    next
      case obj
      let ?x = "if js_gt_zero (default_zero price_arg) \<and> k = ''__proto__''
             then s\<lparr>proto_price := Some (default_zero price_arg)\<rparr> else s"
      have ok': "store_ok ?x" using assms(1) by (simp add: store_ok_proto_price)
      have "s' = notifyObservers (saveToStorage ?x)"
        using assms(2) by (simp add: Some addItem_proto[OF False obj(2)])
      moreover have "notified s (notifyObservers (saveToStorage ?x))"
        by (rule published_notified[OF ok']) simp_all
      ultimately show ?thesis by simp
    next
      case (num n)
      then show ?thesis using assms(2) False by (simp add: Some addItem_type_error)
    next
      case falsy
      let ?x = "s\<lparr>lines := (lines s)(next_line s := \<lparr>quantity = 1, price = Num (default_zero price_arg)\<rparr>),
               next_line := Suc (next_line s),
               objs := (objs s)(items s := put_prop k (next_line s) (objs s (items s)))\<rparr>"
      have "s' = notifyObservers (saveToStorage ?x)"
        using assms(2) by (simp add: Some addItem_new[OF False falsy(2)])
      moreover have "notified s (notifyObservers (saveToStorage ?x))"
        by (rule published_notified[OF store_ok_new[OF assms(1) falsy(1)]]) simp_all
      ultimately show ?thesis by simp
    qed
  qed
qed

lemma clearCart_notified: "store_ok s \<Longrightarrow> notified s (clearCart s)"
  unfolding clearCart_eq
  by (rule published_notified) (simp_all add: store_ok_clear store_okD(6))

lemma outcome_Inr: "outcome x = Inr v \<Longrightarrow> x = Inr (v, after x)"
  by (cases x) auto

subsection \<open>The session storage does not reach the memory\<close>

lemma notifyObservers_calls_cong:
  assumes "items x = items y" "objs x = objs y" "lines x = lines y" "next_obj x = next_obj y"
    "observers x = observers y" "calls x = calls y"
  shows "calls (notifyObservers x) = calls (notifyObservers y)"
  using assms
  by (simp add: notifyObservers_def new_obj_def forEach_observer_calls seen_def resolve_def
      getTotalQuantity_def getTotalPrice_def Object_values_def)

lemma in_memory_published:
  assumes "in_memory x = in_memory y"
  shows "in_memory (notifyObservers (saveToStorage x)) = in_memory (notifyObservers (saveToStorage y))"
proof -
  have "calls (notifyObservers (saveToStorage x)) = calls (notifyObservers (saveToStorage y))"
    using assms by (intro notifyObservers_calls_cong) (simp_all add: in_memory_def)
  then show ?thesis using assms by (simp add: in_memory_def)
qed

lemma in_memory_addItem:
  "in_memory (after (addItem variantId price_arg (s\<lparr>session := st\<rparr>))) =
   in_memory (after (addItem variantId price_arg s))"
proof (cases variantId)
  case None
  then show ?thesis by (simp add: addItem_no_id in_memory_def)
next
  case (Some k)
  show ?thesis
  proof (cases "k = []")
    case True
    then show ?thesis by (simp add: Some addItem_no_id in_memory_def)
  next
    case False
    show ?thesis
    proof (cases rule: get_prop_cases[of s k])
      case (own a)
      then show ?thesis
        using False
        by (simp add: Some addItem_own) (intro conjI impI in_memory_published; simp add: in_memory_def)
    next
      case obj
      then show ?thesis
        using False
        by (simp add: Some addItem_proto) (intro conjI impI in_memory_published; simp add: in_memory_def)
    next
      case (num n)
      then show ?thesis using False by (simp add: Some addItem_type_error in_memory_def)
    next
      case falsy
      then show ?thesis
        using False
        by (simp add: Some addItem_new) (rule in_memory_published, simp add: in_memory_def)
    qed
  qed
qed

lemma in_memory_removeItem:
  "in_memory (after (removeItem variantId (s\<lparr>session := st\<rparr>))) =
   in_memory (after (removeItem variantId s))"
proof (cases variantId)
  case None
  then show ?thesis by (simp add: removeItem_no_id in_memory_def)
next
  case (Some k)
  show ?thesis
  proof (cases "k = []")
    case True
    then show ?thesis by (simp add: Some removeItem_no_id in_memory_def)
  next
    case False
    show ?thesis
    proof (cases rule: get_prop_cases[of s k])
      case (own a)
      then show ?thesis
        using False
        by (simp add: Some removeItem_own) (intro conjI impI in_memory_published; simp add: in_memory_def)
    next
      case obj
      then show ?thesis
        using False
        by (simp add: Some removeItem_proto) (rule in_memory_published, simp add: in_memory_def)
    next
      case (num n)
      then show ?thesis using False by (simp add: Some removeItem_type_error in_memory_def)
    next
      case falsy
      then show ?thesis by (simp add: Some removeItem_absent in_memory_def)
    qed
  qed
qed

lemma in_memory_clearCart:
  "in_memory (clearCart (s\<lparr>session := st\<rparr>)) = in_memory (clearCart s)"
  unfolding clearCart_eq by (rule in_memory_published) (simp add: in_memory_def)

lemma session_published:
  "setItem_throws (session x) \<Longrightarrow> session (saveToStorage x) = session x"
  by (simp add: saveToStorage_def setItem_def)

lemma session_addItem:
  assumes "setItem_throws (session s)"
  shows "session (after (addItem variantId price_arg s)) = session s"
proof (cases variantId)
  case None
  then show ?thesis by (simp add: addItem_no_id)
next
  case (Some k)
  show ?thesis
  proof (cases "k = []")
    case True
    then show ?thesis by (simp add: Some addItem_no_id)
  next
    case False
    show ?thesis
    proof (cases rule: get_prop_cases[of s k])
      case (own a)
      then show ?thesis using False assms by (simp add: Some addItem_own session_published)
    next
      case obj
      then show ?thesis using False assms by (simp add: Some addItem_proto session_published)
    next
      case (num n)
      then show ?thesis using False by (simp add: Some addItem_type_error)
    next
      case falsy
      then show ?thesis using False assms by (simp add: Some addItem_new session_published)
    qed
  qed
qed

lemma session_removeItem:
  assumes "setItem_throws (session s)"
  shows "session (after (removeItem variantId s)) = session s"
proof (cases variantId)
  case None
  then show ?thesis by (simp add: removeItem_no_id)
next
  case (Some k)
  show ?thesis
  proof (cases "k = []")
    case True
    then show ?thesis by (simp add: Some removeItem_no_id)
  next
    case False
    show ?thesis
    proof (cases rule: get_prop_cases[of s k])
      case (own a)
      then show ?thesis using False assms by (simp add: Some removeItem_own session_published)
    next
      case obj
      then show ?thesis using False assms by (simp add: Some removeItem_proto session_published)
    next
      case (num n)
      then show ?thesis using False by (simp add: Some removeItem_type_error)
    next
      case falsy
      then show ?thesis by (simp add: Some removeItem_absent)
    qed
  qed
qed

lemma session_clearCart: "setItem_throws (session s) \<Longrightarrow> session (clearCart s) = session s"
  unfolding clearCart_eq by (simp add: session_published)

lemma ShoppingCart_unreadable:
  assumes "getItem_throws (session w) \<or> (\<exists>t e. content (session w) = Some t \<and> JSON_parse t = Inl e)"
  shows "\<exists>s. ShoppingCart w = Some s \<and> Object_entries s = [] \<and> isEmpty s \<and> observers s = []"
proof (cases "getItem_throws (session w)")
  case True
  then show ?thesis
    by (simp add: ShoppingCart_def loadFromStorage_def getItem_def new_obj_def Object_entries_def
        resolve_def isEmpty_def Object_keys_def)
next
  case False
  with assms obtain t e where t: "content (session w) = Some t" "JSON_parse t = Inl e" by blast
  then show ?thesis
    using False
    by (simp add: ShoppingCart_def loadFromStorage_def getItem_def new_obj_def Object_entries_def
        resolve_def isEmpty_def Object_keys_def)
qed

lemma outcome_session:
  "outcome (addItem variantId price_arg (s\<lparr>session := st\<rparr>)) = outcome (addItem variantId price_arg s)"
  "outcome (removeItem variantId (s\<lparr>session := st\<rparr>)) = outcome (removeItem variantId s)"
  by (simp_all add: outcome_addItem outcome_removeItem
      cong: option.case_cong looked_up.case_cong if_cong)

lemma no_storage_error:
  "outcome (addItem variantId price_arg s) \<noteq> Inl DOMException"
  "outcome (removeItem variantId s) \<noteq> Inl DOMException"
  by (simp_all add: outcome_addItem outcome_removeItem split: option.splits looked_up.splits)

subsection \<open>The first add of an identifier\<close>

lemma addItem_created:
  assumes "store_ok s" "k \<noteq> []" "\<not> truthy_prop (get_prop s k)"
  shows "\<exists>s'. addItem (Some k) price_arg s = Inr (Fin 1, s') \<and>
           Object_entries s' =
             put_prop k \<lparr>quantity = 1, price = Num (default_zero price_arg)\<rparr> (Object_entries s) \<and>
           proto_price s' = proto_price s \<and> store_ok s'"
proof -
  have none: "map_of (objs s (items s)) k = None" using assms(3) by (rule falsy_not_own)
  show ?thesis
    by (simp add: addItem_new[OF assms(2,3)] published(1,2) store_ok_new[OF assms(1) none]
        entries_new[OF assms(1)])
qed

lemma addItem_again:
  assumes "store_ok s" "k \<noteq> []" "map_of (objs s (items s)) k = Some a"
  shows "\<exists>s'. addItem (Some k) price_arg s = Inr (Fin (of_int (to_double (quantity (lines s a) + 1))), s') \<and>
           Object_entries s' =
             put_prop k \<lparr>quantity = to_double (quantity (lines s a) + 1),
                         price = (if js_gt_zero (default_zero price_arg)
                                  then Num (default_zero price_arg) else price (lines s a))\<rparr>
               (Object_entries s) \<and>
           proto_price s' = proto_price s \<and> store_ok s'"
  by (simp add: addItem_own[OF assms(2,3)] published(1,2) store_ok_line[OF assms(1)]
      entries_own[OF assms(1,3)])

subsection \<open>The checkout URL and the order of the identifiers\<close>

lemma plain_falsy:
  assumes "plain k" "proto_price s = None" "map_of (objs s (items s)) k = None"
  shows "\<not> truthy_prop (get_prop s k)"
  using assms by (simp add: get_prop_def plain_def)

lemma put_prop_plain_new:
  assumes "plain k" "k \<notin> fst ` set ps"
  shows "put_prop k v ps = ps @ [(k, v)]"
proof -
  have "\<forall>k' \<in> fst ` set ps. \<not> precedes k k'"
    using assms(1) by (simp add: plain_def precedes_def)
  then show ?thesis using assms(2) by (simp add: put_prop_def insert_prop_last)
qed

lemma first_occurrences_snoc:
  "first_occurrences (ks @ [k]) = (if k \<in> set ks then first_occurrences ks else first_occurrences ks @ [k])"
  by (simp add: first_occurrences_def)

lemma set_first_occurrences [simp]: "set (first_occurrences ks) = set ks"
  by (simp add: first_occurrences_def)

lemma distinct_first_occurrences [simp]: "distinct (first_occurrences ks)"
  by (simp add: first_occurrences_def)

lemma add_all_snoc: "add_all (ks @ [k]) s = after (addItem (Some k) None (add_all ks s))"
  by (simp add: add_all_def)

lemma put_prop_counted:
  assumes "distinct ks" "k \<in> set ks"
  shows "put_prop k (f k) (map (\<lambda>k'. (k', g k')) ks) = map (\<lambda>k'. (k', if k' = k then f k else g k')) ks"
  using assms by (simp add: put_prop_def comp_def image_iff)

lemma count_list_snoc: "count_list (ks @ [k]) k' = count_list ks k' + (if k' = k then 1 else 0)"
  by (induction ks) auto

lemma store_ok_add_all: "store_ok (add_all ks empty_cart)"
proof (induction ks rule: rev_induct)
  case Nil
  then show ?case by (simp add: add_all_def store_ok_empty_cart)
next
  case (snoc k ks)
  then show ?case by (simp add: add_all_snoc store_ok_addItem)
qed

lemma js_ordered_entries: "js_ordered (Object_entries s) = js_ordered (objs s (items s))"
  by (simp add: js_ordered_def keys_entries Object_keys_def)

lemma isEmpty_entries: "isEmpty s = (Object_entries s = [])"
  by (simp add: isEmpty_def Object_keys_def Object_entries_def resolve_def)

lemmas url_defs = getCheckoutUrl_def checkout_base_def number_to_string_def digits10.simps digit_char_def
  add_all_def

subsection \<open>Copies of the items\<close>

lemma mutate_top_level:
  assumes "top_level m" "r \<noteq> items s"
  shows "items (mutate r m s) = items s" "objs (mutate r m s) (items s) = objs s (items s)"
    "lines (mutate r m s) = lines s" "proto_price (mutate r m s) = proto_price s"
  using assms by (cases m; simp)+

lemma mutate_all_top_level:
  assumes "\<forall>m \<in> set ms. top_level m" "r \<noteq> items s"
  shows "items (mutate_all r ms s) = items s \<and> objs (mutate_all r ms s) (items s) = objs s (items s) \<and>
         lines (mutate_all r ms s) = lines s \<and> proto_price (mutate_all r ms s) = proto_price s"
  using assms
proof (induction ms rule: rev_induct)
  case Nil
  then show ?case by (simp add: mutate_all_def)
next
  case (snoc m ms)
  let ?t = "mutate_all r ms s"
  from snoc have IH: "items ?t = items s" "objs ?t (items s) = objs s (items s)"
    "lines ?t = lines s" "proto_price ?t = proto_price s" and top: "top_level m"
    by simp_all
  have step: "mutate_all r (ms @ [m]) s = mutate r m ?t" by (simp add: mutate_all_def)
  have ne: "r \<noteq> items ?t" using snoc.prems(2) IH(1) by simp
  show ?case
    unfolding step using mutate_top_level[OF top ne] IH by simp
qed

lemma getItemQuantity_same:
  assumes "items s' = items s" "objs s' (items s) = objs s (items s)" "lines s' = lines s"
    "proto_price s' = proto_price s"
  shows "getItemQuantity variantId s' = getItemQuantity variantId s"
proof -
  have "get_prop s' k = get_prop s k" for k
    using assms by (simp add: get_prop_def cong: option.case_cong)
  then show ?thesis
    unfolding getItemQuantity_def assms(3) by simp
qed

lemma getAllItems_eq:
  "getAllItems s = (next_obj s, s\<lparr>objs := (objs s)(next_obj s := spread (objs s (items s))),
                                  next_obj := Suc (next_obj s)\<rparr>)"
  by (simp add: getAllItems_def new_obj_def)

lemma getAllItems_copy:
  assumes "store_ok s"
  shows "resolve (snd (getAllItems s)) (fst (getAllItems s)) = Object_entries s"
    "items (snd (getAllItems s)) = items s"
    "objs (snd (getAllItems s)) (items s) = objs s (items s)"
    "lines (snd (getAllItems s)) = lines s"
    "proto_price (snd (getAllItems s)) = proto_price s"
    "fst (getAllItems s) \<noteq> items s"
  using store_okD(1,2)[OF assms]
  by (simp_all add: getAllItems_eq resolve_def Object_entries_def spread_id)

lemmas copy_defs = observable_def mutate_all_def getAllItems_eq

subsection \<open>Loading what was saved\<close>

lemma line_of_json_of_line:
  assumes "json_price (price item)"
  shows "line_of_json (json_of_line item) = Some item"
proof (cases "price item")
  case Null
  then show ?thesis by (cases item) (simp add: line_of_json_def json_of_line_def)
next
  case (Num n)
  with assms obtain r where "n = Fin r" by (cases n) simp_all
  with Num show ?thesis by (cases item) (simp add: line_of_json_def json_of_line_def)
qed

lemma lines_of_json_of_lines:
  assumes "\<forall>item \<in> snd ` set es. json_price (price item)"
  shows "lines_of_json (map (\<lambda>(k, item). (k, json_of_line item)) es) = Some es"
  using assms by (induction es) (auto simp: line_of_json_of_line)

lemma build_frame:
  "build es ps w = (ps', w') \<Longrightarrow>
   objs w' = objs w \<and> next_obj w' = next_obj w \<and> observers w' = observers w \<and>
   session w' = session w \<and> proto_price w' = proto_price w \<and> throws w' = throws w \<and>
   calls w' = calls w \<and> console w' = console w \<and> items w' = items w"
proof (induction es arbitrary: ps w)
  case Nil
  then show ?case by simp
next
  case (Cons e es)
  obtain k item where e: "e = (k, item)" by (cases e)
  from Cons.prems have "build es (put_prop k (next_line w) ps)
      (w\<lparr>lines := (lines w)(next_line w := item), next_line := Suc (next_line w)\<rparr>) = (ps', w')"
    by (simp add: e new_line_def)
  from Cons.IH[OF this] show ?case by simp
qed

lemma build_entries:
  assumes "distinct (map fst ps @ map fst es)"
    and "sorted_wrt (\<lambda>k k'. \<not> precedes k' k) (map fst ps @ map fst es)"
    and "\<forall>a \<in> snd ` set ps. a < next_line w"
    and "build es ps w = (ps', w')"
  shows "map (\<lambda>(k, a). (k, lines w' a)) ps' = map (\<lambda>(k, a). (k, lines w a)) ps @ es"
  using assms
proof (induction es arbitrary: ps w)
  case Nil
  then show ?case by simp
next
  case (Cons e es)
  obtain k item where e: "e = (k, item)" by (cases e)
  let ?n = "next_line w"
  let ?w1 = "w\<lparr>lines := (lines w)(?n := item), next_line := Suc ?n\<rparr>"
  have nk: "k \<notin> fst ` set ps" using Cons.prems(1) by (auto simp: e)
  have last: "\<forall>k' \<in> fst ` set ps. \<not> precedes k k'"
    using Cons.prems(2) by (auto simp: e sorted_wrt_append)
  have put: "put_prop k ?n ps = ps @ [(k, ?n)]"
    using nk last by (simp add: put_prop_def insert_prop_last)
  have b: "build es (ps @ [(k, ?n)]) ?w1 = (ps', w')"
    using Cons.prems(4) by (simp add: e new_line_def put)
  have d: "distinct (map fst (ps @ [(k, ?n)]) @ map fst es)"
    using Cons.prems(1) by (simp add: e)
  have so: "sorted_wrt (\<lambda>k k'. \<not> precedes k' k) (map fst (ps @ [(k, ?n)]) @ map fst es)"
    using Cons.prems(2) by (simp add: e)
  have lt: "\<forall>a \<in> snd ` set (ps @ [(k, ?n)]). a < next_line ?w1"
    using Cons.prems(3) by (auto simp: less_Suc_eq)
  have old: "map (\<lambda>(k, a). (k, lines ?w1 a)) ps = map (\<lambda>(k, a). (k, lines w a)) ps"
  proof (rule map_lines_cong, rule ballI)
    fix a assume "a \<in> snd ` set ps"
    with Cons.prems(3) have "a < ?n" by blast
    then show "lines ?w1 a = lines w a" by simp
  qed
  have "map (\<lambda>(k, a). (k, lines w' a)) ps' = map (\<lambda>(k, a). (k, lines ?w1 a)) (ps @ [(k, ?n)]) @ es"
    by (rule Cons.IH[OF d so lt b])
  also have "\<dots> = map (\<lambda>(k, a). (k, lines w a)) ps @ (k, item) # es"
    using old by simp
  finally show ?case by (simp add: e)
qed

lemma distinct_refs_update_aux:
  assumes "distinct (map snd ps)" "distinct (map fst ps)" "n \<notin> snd ` set ps"
  shows "distinct (map (\<lambda>(k', v'). if k' = k then n else v') ps)"
  using assms
proof (induction ps)
  case Nil
  then show ?case by simp
next
  case (Cons p ps)
  obtain k' v' where p: "p = (k', v')" by (cases p)
  have IH: "distinct (map (\<lambda>(k', v'). if k' = k then n else v') ps)" using Cons by simp
  have new: "(if k' = k then n else v') \<notin> (\<lambda>(k', v'). if k' = k then n else v') ` set ps"
  proof
    assume "(if k' = k then n else v') \<in> (\<lambda>(k', v'). if k' = k then n else v') ` set ps"
    then obtain k2 v2 where m: "(k2, v2) \<in> set ps"
      and eq: "(if k' = k then n else v') = (if k2 = k then n else v2)" by auto
    have k2: "k2 \<noteq> k'" using m Cons.prems(2) by (force simp: p)
    have v2: "v2 \<noteq> v'" "v2 \<noteq> n" "v' \<noteq> n" using m Cons.prems(1,3) by (force simp: p)+
    show False using eq k2 v2 by (auto split: if_splits)
  qed
  show ?case using IH new by (simp add: p)
qed

lemma distinct_refs_update:
  assumes "distinct (map snd ps)" "distinct (map fst ps)" "n \<notin> snd ` set ps"
  shows "distinct (map snd (map (\<lambda>(k', v'). if k' = k then (k', n) else (k', v')) ps))"
proof -
  have "map snd (map (\<lambda>(k', v'). if k' = k then (k', n) else (k', v')) ps)
      = map (\<lambda>(k', v'). if k' = k then n else v') ps"
    by (induction ps) auto
  then show ?thesis using distinct_refs_update_aux[OF assms] by (simp only:)
qed

lemma distinct_refs_put_prop:
  assumes "distinct (map snd ps)" "distinct (map fst ps)" "n \<notin> snd ` set ps"
  shows "distinct (map snd (put_prop k n ps))"
proof (cases "k \<in> fst ` set ps")
  case True
  then have "put_prop k n ps = map (\<lambda>(k', v'). if k' = k then (k', n) else (k', v')) ps"
    by (simp only: put_prop_def if_True)
  then show ?thesis using distinct_refs_update[OF assms] by (simp only:)
next
  case False
  then have "put_prop k n ps = insert_prop k n ps" by (simp only: put_prop_def if_False)
  then show ?thesis using distinct_refs_insert[OF assms(1,3)] by (simp only:)
qed

lemma build_ok:
  assumes "js_ordered ps" "distinct (map snd ps)" "\<forall>a \<in> snd ` set ps. a < next_line w"
    and "build es ps w = (ps', w')"
  shows "js_ordered ps' \<and> distinct (map snd ps') \<and> (\<forall>a \<in> snd ` set ps'. a < next_line w')"
  using assms
proof (induction es arbitrary: ps w)
  case Nil
  then show ?case by simp
next
  case (Cons e es)
  obtain k item where e: "e = (k, item)" by (cases e)
  let ?n = "next_line w"
  let ?w1 = "w\<lparr>lines := (lines w)(?n := item), next_line := Suc ?n\<rparr>"
  have fresh: "?n \<notin> snd ` set ps" using Cons.prems(3) by auto
  have b: "build es (put_prop k ?n ps) ?w1 = (ps', w')"
    using Cons.prems(4) by (simp add: e new_line_def)
  have o: "js_ordered (put_prop k ?n ps)" using Cons.prems(1) by (rule js_ordered_put_prop)
  have d: "distinct (map snd (put_prop k ?n ps))"
    using Cons.prems(1,2) fresh by (intro distinct_refs_put_prop) (simp_all add: js_ordered_def)
  have lt: "\<forall>a \<in> snd ` set (put_prop k ?n ps). a < next_line ?w1"
  proof
    fix a assume "a \<in> snd ` set (put_prop k ?n ps)"
    with refs_put_prop[of k ?n ps] have "a = ?n \<or> a \<in> snd ` set ps" by blast
    with Cons.prems(3) have "a \<le> ?n" by (auto simp: less_imp_le)
    then show "a < next_line ?w1" by simp
  qed
  show ?case by (rule Cons.IH[OF o d lt b])
qed

lemma store_ok_ShoppingCart:
  assumes "ShoppingCart w = Some s"
  shows "store_ok s"
proof -
  let ?w = "w\<lparr>observers := []\<rparr>"
  from assms obtain a s0 where l: "loadFromStorage ?w = Some (a, s0)" and s: "s = s0\<lparr>items := a\<rparr>"
    by (auto simp: ShoppingCart_def split: option.splits)
  have empty: "store_ok ((snd (new_obj [] x))\<lparr>items := fst (new_obj [] x)\<rparr>)" if "observers x = []" for x
    using that by (simp add: new_obj_def store_ok_def js_ordered_def)
  show ?thesis
  proof (cases "\<exists>j es. getItem (session ?w) = Inr (Some (Text_json j)) \<and> items_of_json j = Some es")
    case True
    then obtain j es where g: "getItem (session ?w) = Inr (Some (Text_json j))" "items_of_json j = Some es"
      by blast
    obtain ps w' where b: "build es [] ?w = (ps, w')" by (cases "build es [] ?w")
    have r: "(a, s0) = new_obj ps w'" using l g b by (simp add: loadFromStorage_def)
    have "js_ordered ps \<and> distinct (map snd ps) \<and> (\<forall>a \<in> snd ` set ps. a < next_line w')"
      by (rule build_ok[OF _ _ _ b]) (simp_all add: js_ordered_def)
    moreover have "observers w' = []" using build_frame[OF b] by simp
    ultimately show ?thesis using r by (simp add: s new_obj_def store_ok_def)
  next
    case False
    have "\<exists>x. observers x = [] \<and> (a, s0) = new_obj [] x"
    proof (cases "getItem (session ?w)")
      case (Inl e)
      with l show ?thesis by (auto simp: loadFromStorage_def intro!: exI[of _ "?w\<lparr>console := console ?w @ [Load_error e]\<rparr>"])
    next
      case (Inr stored)
      show ?thesis
      proof (cases stored)
        case None
        with l Inr show ?thesis by (auto simp: loadFromStorage_def intro!: exI[of _ ?w])
      next
        case (Some t)
        show ?thesis
        proof (cases t)
          case Text_empty
          with l Inr Some show ?thesis by (auto simp: loadFromStorage_def intro!: exI[of _ ?w])
        next
          case (Text_json j)
          with False Inr Some have "items_of_json j = None" by (cases "items_of_json j") auto
          with l Inr Some Text_json show ?thesis by (simp add: loadFromStorage_def)
        next
          case Text_malformed
          with l Inr Some show ?thesis
            by (auto simp: loadFromStorage_def intro!: exI[of _ "?w\<lparr>console := console ?w @ [Load_error SyntaxError]\<rparr>"])
        qed
      qed
    qed
    then obtain x where "observers x = []" "(a, s0) = new_obj [] x" by blast
    then show ?thesis using empty[of x] by (simp add: s) (metis fst_conv snd_conv)
  qed
qed

lemma same_entries:
  assumes "Object_entries s' = Object_entries s"
  shows "getTotalQuantity s' = getTotalQuantity s" "getTotalPrice s' = getTotalPrice s"
    "Object_values s' = Object_values s"
  using assms by (simp_all add: getTotalQuantity_def getTotalPrice_def values_entries[symmetric])

lemma load_saved:
  assumes ok: "store_ok s" and fin: "\<forall>item \<in> set (Object_values s). json_price (price item)"
    and w: "content (session w) = Some (JSON_stringify s)" "\<not> getItem_throws (session w)"
  shows "\<exists>s'. ShoppingCart w = Some s' \<and> Object_entries s' = Object_entries s"
proof -
  let ?w = "w\<lparr>observers := []\<rparr>"
  let ?es = "Object_entries s"
  have "\<forall>item \<in> snd ` set ?es. json_price (price item)"
    using fin by (simp add: values_entries[symmetric])
  then have parse: "lines_of_json (map (\<lambda>(k, item). (k, json_of_line item)) ?es) = Some ?es"
    by (rule lines_of_json_of_lines)
  obtain ps w' where b: "build ?es [] ?w = (ps, w')" by (cases "build ?es [] ?w")
  have ord: "js_ordered ?es" using store_okD(2)[OF ok] by (simp add: js_ordered_entries)
  have "map (\<lambda>(k, a). (k, lines w' a)) ps = map (\<lambda>(k, a). (k, lines ?w a)) [] @ ?es"
    by (rule build_entries[OF _ _ _ b]) (use ord in \<open>simp_all add: js_ordered_def\<close>)
  then have res: "map (\<lambda>(k, a). (k, lines w' a)) ps = ?es" by simp
  have "loadFromStorage ?w = Some (new_obj ps w')"
    using w parse b by (simp add: loadFromStorage_def getItem_def JSON_stringify_def)
  then have "ShoppingCart w = Some ((snd (new_obj ps w'))\<lparr>items := fst (new_obj ps w')\<rparr>)"
    by (simp add: ShoppingCart_def split_def)
  moreover have "Object_entries ((snd (new_obj ps w'))\<lparr>items := fst (new_obj ps w')\<rparr>) = ?es"
    using res by (simp add: new_obj_def Object_entries_def resolve_def)
  ultimately show ?thesis by blast
qed

subsection \<open>What addItem does to an entry\<close>

text \<open>
  For a non-empty identifier that is a key of \<open>items\<close>, or for which \<open>this.items[k]\<close> is
  falsy: \<open>addItem\<close> takes the entry, or when it is missing a new one with quantity \<open>0\<close> and
  the given price, adds one to its quantity, stores the given price exactly when it is
  greater than zero, returns the new quantity, saves and notifies.
\<close>

lemma addItem_entry:
  assumes "store_ok s" and "k \<noteq> []"
    and "k \<in> set (Object_keys s) \<or> \<not> truthy_prop (get_prop s k)"
  shows "\<exists>s'. addItem (Some k) price_arg s =
           Inr (Fin (of_int (to_double (quantity
                  (case map_of (Object_entries s) k of
                     None \<Rightarrow> \<lparr>quantity = 0, price = Num (default_zero price_arg)\<rparr>
                   | Some item \<Rightarrow> item) + 1))), s') \<and>
         map_of (Object_entries s') =
           (map_of (Object_entries s))(k \<mapsto>
              \<lparr>quantity = to_double (quantity
                  (case map_of (Object_entries s) k of
                     None \<Rightarrow> \<lparr>quantity = 0, price = Num (default_zero price_arg)\<rparr>
                   | Some item \<Rightarrow> item) + 1),
               price = (if js_gt_zero (default_zero price_arg) then Num (default_zero price_arg)
                        else price
                  (case map_of (Object_entries s) k of
                     None \<Rightarrow> \<lparr>quantity = 0, price = Num (default_zero price_arg)\<rparr>
                   | Some item \<Rightarrow> item))\<rparr>) \<and>
         persisted s s' \<and> notified s s'"
proof (cases "map_of (objs s (items s)) k")
  case None
  then have "k \<notin> set (Object_keys s)"
    by (simp add: Object_keys_def map_of_eq_None_iff)
  with assms(3) have falsy: "\<not> truthy_prop (get_prop s k)" by simp
  have none: "map_of (Object_entries s) k = None" by (simp add: map_of_entries None)
  let ?x = "s\<lparr>lines := (lines s)(next_line s := \<lparr>quantity = 1, price = Num (default_zero price_arg)\<rparr>),
               next_line := Suc (next_line s),
               objs := (objs s)(items s := put_prop k (next_line s) (objs s (items s)))\<rparr>"
  have okx: "store_ok ?x" using assms(1) None by (rule store_ok_new)
  have "addItem (Some k) price_arg s = Inr (Fin 1, notifyObservers (saveToStorage ?x))"
    by (rule addItem_new[OF assms(2) falsy])
  moreover have "map_of (Object_entries (notifyObservers (saveToStorage ?x))) =
      (map_of (Object_entries s))(k \<mapsto> \<lparr>quantity = 1, price = Num (default_zero price_arg)\<rparr>)"
    by (simp only: published(2)[OF okx] entries_new[OF assms(1)] map_of_put_prop)
  moreover have "persisted s (notifyObservers (saveToStorage ?x))"
    by (rule published_persisted[OF okx]) simp
  moreover have "notified s (notifyObservers (saveToStorage ?x))"
    by (rule published_notified[OF okx]) simp_all
  ultimately show ?thesis by (simp add: none to_double_small)
next
  case (Some a)
  have some: "map_of (Object_entries s) k = Some (lines s a)" by (simp add: map_of_entries Some)
  let ?v = "\<lparr>quantity = to_double (quantity (lines s a) + 1),
             price = (if js_gt_zero (default_zero price_arg) then Num (default_zero price_arg)
                      else price (lines s a))\<rparr>"
  let ?x = "s\<lparr>lines := (lines s)(a := ?v)\<rparr>"
  have okx: "store_ok ?x" using assms(1) by (rule store_ok_line)
  have "addItem (Some k) price_arg s =
      Inr (Fin (of_int (to_double (quantity (lines s a) + 1))), notifyObservers (saveToStorage ?x))"
    by (rule addItem_own[OF assms(2) Some])
  moreover have "map_of (Object_entries (notifyObservers (saveToStorage ?x))) =
      (map_of (Object_entries s))(k \<mapsto> ?v)"
    by (simp only: published(2)[OF okx] entries_own[OF assms(1) Some] map_of_put_prop)
  moreover have "persisted s (notifyObservers (saveToStorage ?x))"
    by (rule published_persisted[OF okx]) simp
  moreover have "notified s (notifyObservers (saveToStorage ?x))"
    by (rule published_notified[OF okx]) simp_all
  ultimately show ?thesis by (simp add: some)
qed

lemma not_inherited_undefined:
  assumes "k \<notin> set (Object_keys s)" "\<not> inherited s k"
  shows "get_prop s k = Undefined"
proof -
  have "map_of (objs s (items s)) k = None"
    using assms(1) by (simp add: Object_keys_def map_of_eq_None_iff)
  then show ?thesis using assms(2) by (auto simp: get_prop_def inherited_def)
qed

lemma persisted_throwing: "persisted s s' \<Longrightarrow> setItem_throws (session s) \<Longrightarrow> session s' = session s"
  by (simp add: persisted_def)

lemma present_key:
  assumes "map_of (Object_entries s) k = Some item"
  shows "k \<in> set (Object_keys s)"
proof -
  have "(k, item) \<in> set (Object_entries s)" using assms by (rule map_of_SomeD)
  then have "k \<in> set (map fst (Object_entries s))" by force
  then show ?thesis by (simp only: keys_entries)
qed

section \<open>The claims\<close>

text \<open>
  C3. In a store in which every entry has a quantity of at least one, \<open>addItem\<close>,
  \<open>removeItem\<close> and \<open>clearCart\<close> (with any arguments, returning or throwing) leave a
  store in which every entry has a quantity of at least one: an entry whose quantity
  would reach \<open>0\<close> is removed. The operations also keep \<open>store_ok\<close>, so the property
  holds along every sequence of operations.
\<close>

theorem operations_keep_quantities_positive:
  assumes "store_ok s" and "cart_inv s"
  shows "store_ok (after (addItem variantId price_arg s)) \<and>
         cart_inv (after (addItem variantId price_arg s)) \<and>
         store_ok (after (removeItem variantId s)) \<and>
         cart_inv (after (removeItem variantId s)) \<and>
         store_ok (clearCart s) \<and>
         cart_inv (clearCart s)"
  using assms
  by (simp add: store_ok_addItem cart_inv_addItem store_ok_removeItem cart_inv_removeItem
      store_ok_clearCart cart_inv_clearCart)

text \<open>
  The cart after \<open>addItem("v1", 5)\<close>: each operation keeps the invariant, and
  \<open>removeItem("v1")\<close> leaves no entry.
\<close>

theorem operations_keep_quantities_positive_witness:
  "store_ok (after (addItem (Some ''v1'') (Some (Fin 5)) empty_cart)) \<and>
   cart_inv (after (addItem (Some ''v1'') (Some (Fin 5)) empty_cart)) \<and>
   cart_inv (after (addItem (Some ''v1'') None (after (addItem (Some ''v1'') (Some (Fin 5)) empty_cart)))) \<and>
   cart_inv (after (removeItem (Some ''v1'') (after (addItem (Some ''v1'') (Some (Fin 5)) empty_cart)))) \<and>
   Object_entries (after (removeItem (Some ''v1'') (after (addItem (Some ''v1'') (Some (Fin 5)) empty_cart)))) = [] \<and>
   cart_inv (clearCart (after (addItem (Some ''v1'') (Some (Fin 5)) empty_cart)))"
proof -
  define s1 where "s1 = after (addItem (Some ''v1'') (Some (Fin 5)) empty_cart)"
  have ok: "store_ok s1" unfolding s1_def by (intro store_ok_addItem store_ok_empty_cart)
  have inv: "cart_inv s1" unfolding s1_def by (simp add: cart_inv_def run_defs)
  have gone: "Object_entries (after (removeItem (Some ''v1'') s1)) = []"
    unfolding s1_def by (simp add: run_defs)
  from operations_keep_quantities_positive[OF ok inv, of "Some ''v1''" None]
  show ?thesis using ok inv gone unfolding s1_def[symmetric] by simp
qed

text \<open>
  C7, as amended. \<open>getAllItems()\<close> returns a new object with the entries of \<open>items\<close> and
  changes nothing that an accessor reads. Whatever a caller then assigns to or deletes
  from the properties of the returned object, \<open>this.items\<close>, its properties, every line
  item and the results of \<open>getItemQuantity\<close>, \<open>getTotalQuantity\<close>, \<open>getTotalPrice\<close>,
  \<open>isEmpty\<close>, \<open>getCheckoutUrl\<close> and of the entries of \<open>getAllItems\<close> stay as they were.
  The copy is shallow: its entries are the store's own line items.
\<close>

theorem getAllItems_shallow_copy:
  assumes "store_ok s"
  shows "resolve (snd (getAllItems s)) (fst (getAllItems s)) = Object_entries s \<and>
         observable (snd (getAllItems s)) = observable s \<and>
         ((\<forall>m \<in> set ms. top_level m) \<longrightarrow>
            items (mutate_all (fst (getAllItems s)) ms (snd (getAllItems s))) = items s \<and>
            objs (mutate_all (fst (getAllItems s)) ms (snd (getAllItems s))) (items s) = objs s (items s) \<and>
            lines (mutate_all (fst (getAllItems s)) ms (snd (getAllItems s))) = lines s \<and>
            observable (mutate_all (fst (getAllItems s)) ms (snd (getAllItems s))) = observable s \<and>
            getItemQuantity variantId (mutate_all (fst (getAllItems s)) ms (snd (getAllItems s)))
              = getItemQuantity variantId s)"
proof (intro conjI impI)
  let ?r = "fst (getAllItems s)" and ?s1 = "snd (getAllItems s)"
  note c = getAllItems_copy[OF assms]
  show "resolve ?s1 ?r = Object_entries s" by (rule c(1))
  show "observable ?s1 = observable s" using c(2,3,4) by (intro same_items) simp_all
  assume top: "\<forall>m \<in> set ms. top_level m"
  have ne: "?r \<noteq> items ?s1" using c(2,6) by simp
  from mutate_all_top_level[OF top ne]
  have m: "items (mutate_all ?r ms ?s1) = items s"
    "objs (mutate_all ?r ms ?s1) (items s) = objs s (items s)"
    "lines (mutate_all ?r ms ?s1) = lines s"
    "proto_price (mutate_all ?r ms ?s1) = proto_price s"
    using c(2,3,4,5) by simp_all
  show "items (mutate_all ?r ms ?s1) = items s" by (rule m(1))
  show "objs (mutate_all ?r ms ?s1) (items s) = objs s (items s)" by (rule m(2))
  show "lines (mutate_all ?r ms ?s1) = lines s" by (rule m(3))
  show "observable (mutate_all ?r ms ?s1) = observable s" using m by (intro same_items) simp_all
  show "getItemQuantity variantId (mutate_all ?r ms ?s1) = getItemQuantity variantId s"
    using m by (rule getItemQuantity_same)
qed

text \<open>
  The cart after \<open>addItem("v1", 10)\<close>: the caller deletes \<open>v1\<close> from the returned object
  and stores the line item under \<open>v2\<close>; the returned object changes, the cart does not.
\<close>

theorem getAllItems_shallow_copy_witness:
  "store_ok (after (addItem (Some ''v1'') (Some (Fin 10)) empty_cart)) \<and>
   top_level (Delete_entry ''v1'') \<and> top_level (Set_entry ''v2'' 0) \<and>
   resolve (snd (getAllItems (after (addItem (Some ''v1'') (Some (Fin 10)) empty_cart))))
      (fst (getAllItems (after (addItem (Some ''v1'') (Some (Fin 10)) empty_cart))))
     = [(''v1'', \<lparr>quantity = 1, price = Num (Fin 10)\<rparr>)] \<and>
   resolve (mutate_all (fst (getAllItems (after (addItem (Some ''v1'') (Some (Fin 10)) empty_cart))))
        [Delete_entry ''v1'', Set_entry ''v2'' 0]
        (snd (getAllItems (after (addItem (Some ''v1'') (Some (Fin 10)) empty_cart)))))
      (fst (getAllItems (after (addItem (Some ''v1'') (Some (Fin 10)) empty_cart))))
     = [(''v2'', \<lparr>quantity = 1, price = Num (Fin 10)\<rparr>)] \<and>
   observable (mutate_all (fst (getAllItems (after (addItem (Some ''v1'') (Some (Fin 10)) empty_cart))))
        [Delete_entry ''v1'', Set_entry ''v2'' 0]
        (snd (getAllItems (after (addItem (Some ''v1'') (Some (Fin 10)) empty_cart)))))
     = ([(''v1'', \<lparr>quantity = 1, price = Num (Fin 10)\<rparr>)], 1, Fin 10, False,
        ''https://ployskanombuns.myshopify.com/cart/v1:1'')"
proof -
  define s where "s = after (addItem (Some ''v1'') (Some (Fin 10)) empty_cart)"
  have ok: "store_ok s" unfolding s_def by (intro store_ok_addItem store_ok_empty_cart)
  have obs: "observable s = ([(''v1'', \<lparr>quantity = 1, price = Num (Fin 10)\<rparr>)], 1, Fin 10, False,
        ''https://ployskanombuns.myshopify.com/cart/v1:1'')"
    unfolding s_def by (simp add: observable_def url_defs run_defs)
  have r2: "resolve (mutate_all (fst (getAllItems s)) [Delete_entry ''v1'', Set_entry ''v2'' 0]
        (snd (getAllItems s))) (fst (getAllItems s)) = [(''v2'', \<lparr>quantity = 1, price = Num (Fin 10)\<rparr>)]"
    unfolding s_def by (simp add: copy_defs run_defs)
  from getAllItems_shallow_copy[OF ok, of "[Delete_entry ''v1'', Set_entry ''v2'' 0]"]
  have "resolve (snd (getAllItems s)) (fst (getAllItems s)) = Object_entries s"
    and "observable (mutate_all (fst (getAllItems s)) [Delete_entry ''v1'', Set_entry ''v2'' 0]
        (snd (getAllItems s))) = observable s"
    by simp_all
  then show ?thesis
    using ok obs r2 unfolding s_def[symmetric] by (simp add: observable_def)
qed

text \<open>
  C7 as stated fails for the nested records: after \<open>addItem("v1", 10)\<close>, the assignment
  \<open>cart.getAllItems().v1.quantity = 5\<close> changes the store's own line item, so
  \<open>getTotalQuantity()\<close> returns \<open>5\<close> instead of \<open>1\<close>.
\<close>

theorem getAllItems_nested_counterexample:
  "getTotalQuantity (after (addItem (Some ''v1'') (Some (Fin 10)) empty_cart)) = 1 \<and>
   Object_entries (after (addItem (Some ''v1'') (Some (Fin 10)) empty_cart))
     = [(''v1'', \<lparr>quantity = 1, price = Num (Fin 10)\<rparr>)] \<and>
   getTotalQuantity
     (mutate (fst (getAllItems (after (addItem (Some ''v1'') (Some (Fin 10)) empty_cart))))
        (Set_quantity ''v1'' 5)
        (snd (getAllItems (after (addItem (Some ''v1'') (Some (Fin 10)) empty_cart))))) = 5 \<and>
   Object_entries
     (mutate (fst (getAllItems (after (addItem (Some ''v1'') (Some (Fin 10)) empty_cart))))
        (Set_quantity ''v1'' 5)
        (snd (getAllItems (after (addItem (Some ''v1'') (Some (Fin 10)) empty_cart)))))
     = [(''v1'', \<lparr>quantity = 5, price = Num (Fin 10)\<rparr>)]"
  by (simp add: copy_defs run_defs)

text \<open>
  C9. When the identifier is absent or empty, \<open>addItem\<close> throws before it changes
  anything: the error leaves the method with the store exactly as it was, so the items,
  the session storage, the listeners and the record of listener calls are untouched.
\<close>

theorem addItem_without_id_changes_nothing:
  "addItem None price_arg s = Inl (Error ''Variant ID is required'', s) \<and>
   addItem (Some []) price_arg s = Inl (Error ''Variant ID is required'', s)"
  by (simp add: addItem_no_id)

text \<open>
  C10. When \<open>addItem(k, p)\<close> creates the entry (\<open>k\<close> is not empty and \<open>this.items[k]\<close> is
  falsy), the given price is stored whatever it is, a negative one included: the test
  \<open>price > 0\<close> only decides whether an existing price is overwritten. So
  \<open>addItem("v1", -5)\<close> on the empty cart makes \<open>getTotalPrice()\<close> return \<open>-5\<close>.
\<close>

theorem first_add_stores_any_price:
  "(store_ok s \<and> k \<noteq> [] \<and> \<not> truthy_prop (get_prop s k) \<longrightarrow>
      (\<exists>s'. addItem (Some k) (Some p) s = Inr (Fin 1, s') \<and>
            map_of (Object_entries s') k = Some \<lparr>quantity = 1, price = Num p\<rparr>)) \<and>
   getTotalPrice (after (addItem (Some ''v1'') (Some (Fin (- 5))) empty_cart)) = Fin (- 5)"
proof (intro conjI impI)
  assume a: "store_ok s \<and> k \<noteq> [] \<and> \<not> truthy_prop (get_prop s k)"
  with addItem_created[of s k "Some p"]
  obtain s' where "addItem (Some k) (Some p) s = Inr (Fin 1, s')"
    and "Object_entries s' = put_prop k \<lparr>quantity = 1, price = Num p\<rparr> (Object_entries s)"
    by (auto simp: default_zero_def)
  then show "\<exists>s'. addItem (Some k) (Some p) s = Inr (Fin 1, s') \<and>
            map_of (Object_entries s') k = Some \<lparr>quantity = 1, price = Num p\<rparr>"
    by (simp add: map_of_put_prop)
next
  show "getTotalPrice (after (addItem (Some ''v1'') (Some (Fin (- 5))) empty_cart)) = Fin (- 5)"
    by (simp add: run_defs)
qed

text \<open>
  \<open>addItem("v1", -5)\<close> on the empty cart: the entry is created with the price \<open>-5\<close>,
  which is not greater than zero.
\<close>

theorem first_add_stores_any_price_witness:
  "store_ok empty_cart \<and> ''v1'' \<noteq> [] \<and> \<not> truthy_prop (get_prop empty_cart ''v1'') \<and>
   outcome (addItem (Some ''v1'') (Some (Fin (- 5))) empty_cart) = Inr (Fin 1) \<and>
   map_of (Object_entries (after (addItem (Some ''v1'') (Some (Fin (- 5))) empty_cart))) ''v1''
     = Some \<lparr>quantity = 1, price = Num (Fin (- 5))\<rparr> \<and>
   \<not> js_gt_zero (Fin (- 5))"
proof -
  have f: "\<not> truthy_prop (get_prop empty_cart ''v1'')" by (simp add: run_defs)
  from first_add_stores_any_price[of empty_cart "''v1''" "Fin (- 5)"] store_ok_empty_cart f
  obtain s' where "addItem (Some ''v1'') (Some (Fin (- 5))) empty_cart = Inr (Fin 1, s')"
    and "map_of (Object_entries s') ''v1'' = Some \<lparr>quantity = 1, price = Num (Fin (- 5))\<rparr>"
    by auto
  then show ?thesis using store_ok_empty_cart f by simp
qed

text \<open>
  C1. The claim fails on the code. \<open>this.items[variantId]\<close> also finds what \<open>items\<close>
  inherits from \<open>Object.prototype\<close>, so for an identifier such as \<open>toString\<close> the test
  \<open>!this.items[variantId]\<close> does not see that the entry is missing:
  \<open>addItem("toString", 10)\<close> on the new cart creates no entry and returns \<open>NaN\<close> where
  the new quantity is \<open>1\<close>; the quantity of the identifier stays \<open>0\<close>, and a second call
  returns \<open>NaN\<close> again. (For an identifier that is a key of \<open>items\<close>, or that the lookup
  does not find, \<open>addItem\<close> does what the claim says: \<open>addItem_entry\<close>.)
\<close>

theorem addItem_inherited_name_returns_NaN:
  "outcome (addItem (Some ''toString'') (Some (Fin 10)) empty_cart) = Inr NaN \<and>
   Object_keys (after (addItem (Some ''toString'') (Some (Fin 10)) empty_cart)) = [] \<and>
   getItemQuantity (Some ''toString'') (after (addItem (Some ''toString'') (Some (Fin 10)) empty_cart)) = 0 \<and>
   getTotalQuantity (after (addItem (Some ''toString'') (Some (Fin 10)) empty_cart)) = 0 \<and>
   outcome (addItem (Some ''toString'') (Some (Fin 10))
     (after (addItem (Some ''toString'') (Some (Fin 10)) empty_cart))) = Inr NaN"
  by (simp add: run_defs getItemQuantity_def)

text \<open>
  C4. The claim fails on the code, by the same defect as C1: \<open>this.items[variantId]\<close>
  finds what \<open>items\<close> inherits. \<open>addItem("__proto__", 5)\<close> reaches \<open>Object.prototype\<close>
  itself and stores \<open>5\<close> in \<open>Object.prototype.price\<close>. From then on \<open>this.items["price"]\<close>
  is the number \<open>5\<close>, and \<open>addItem("price", 1)\<close>, a call with a valid identifier, throws a
  \<open>TypeError\<close> to its caller at \<open>quantity += 1\<close>: no entry is created and the subscribed
  listener is not called. (Whenever \<open>addItem\<close> returns, and after \<open>clearCart\<close>, the listeners
  of the model have been called once each, in subscription order, with the same snapshot,
  whichever of them throw: \<open>addItem_notified\<close>, \<open>clearCart_notified\<close>.)
\<close>

theorem addItem_after_inherited_price_throws:
  "outcome (addItem (Some ''__proto__'') (Some (Fin 5)) empty_cart) = Inr NaN \<and>
   observers (subscribe (Function 0) (after (addItem (Some ''__proto__'') (Some (Fin 5)) empty_cart))) = [0] \<and>
   calls (subscribe (Function 0) (after (addItem (Some ''__proto__'') (Some (Fin 5)) empty_cart))) = [] \<and>
   outcome (addItem (Some ''price'') (Some (Fin 1))
     (subscribe (Function 0) (after (addItem (Some ''__proto__'') (Some (Fin 5)) empty_cart))))
     = Inl TypeError \<and>
   calls (after (addItem (Some ''price'') (Some (Fin 1))
     (subscribe (Function 0) (after (addItem (Some ''__proto__'') (Some (Fin 5)) empty_cart))))) = [] \<and>
   Object_keys (after (addItem (Some ''price'') (Some (Fin 1))
     (subscribe (Function 0) (after (addItem (Some ''__proto__'') (Some (Fin 5)) empty_cart))))) = []"
  by (simp add: run_defs)

text \<open>
  C2, as amended. \<open>removeItem\<close> returns \<open>0\<close> and leaves the whole store as it was (no
  write to the session storage, no listener call) when the identifier is absent
  (\<open>undefined\<close>) or empty, whether or not \<open>""\<close> is a key of \<open>items\<close>, and when it is
  neither a key of \<open>items\<close> nor the name of a property that \<open>items\<close> inherits from
  \<open>Object.prototype\<close>. For a non-empty identifier that is a key of \<open>items\<close> it takes one
  from the quantity; when the result is at most \<open>0\<close> the entry is deleted and \<open>0\<close> is
  returned, otherwise the entry keeps the new quantity, which is returned. In both cases
  every other entry is as before, the items are written to the session storage and the
  listeners are notified. The subtraction is that of doubles: it is exact whenever the
  result is below \<open>2^53\<close> in absolute value.
\<close>

theorem removeItem_cases:
  "removeItem None s = Inr (Fin 0, s) \<and>
   removeItem (Some []) s = Inr (Fin 0, s) \<and>
   (k \<notin> set (Object_keys s) \<and> \<not> inherited s k \<longrightarrow> removeItem (Some k) s = Inr (Fin 0, s)) \<and>
   (store_ok s \<and> k \<noteq> [] \<and> map_of (Object_entries s) k = Some item \<longrightarrow>
      (\<exists>s'. removeItem (Some k) s =
              Inr (Fin (of_int (if quantity item - 1 \<le> 0 then 0 else to_double (quantity item - 1))), s') \<and>
            map_of (Object_entries s') =
              (if quantity item - 1 \<le> 0 then (map_of (Object_entries s))(k := None)
               else (map_of (Object_entries s))(k \<mapsto> item\<lparr>quantity := to_double (quantity item - 1)\<rparr>)) \<and>
            persisted s s' \<and> notified s s')) \<and>
   (\<bar>quantity item - 1\<bar> < 9007199254740992 \<longrightarrow> to_double (quantity item - 1) = quantity item - 1)"
proof (intro conjI impI)
  assume "k \<notin> set (Object_keys s) \<and> \<not> inherited s k"
  then have "get_prop s k = Undefined" by (simp add: not_inherited_undefined)
  then show "removeItem (Some k) s = Inr (Fin 0, s)" by (simp add: removeItem_absent)
next
  assume "store_ok s \<and> k \<noteq> [] \<and> map_of (Object_entries s) k = Some item"
  then show "\<exists>s'. removeItem (Some k) s =
              Inr (Fin (of_int (if quantity item - 1 \<le> 0 then 0 else to_double (quantity item - 1))), s') \<and>
            map_of (Object_entries s') =
              (if quantity item - 1 \<le> 0 then (map_of (Object_entries s))(k := None)
               else (map_of (Object_entries s))(k \<mapsto> item\<lparr>quantity := to_double (quantity item - 1)\<rparr>)) \<and>
            persisted s s' \<and> notified s s'"
    using removeItem_present[of s k item] by blast
next
  assume "\<bar>quantity item - 1\<bar> < 9007199254740992"
  then show "to_double (quantity item - 1) = quantity item - 1" by (rule to_double_small)
qed (simp_all add: removeItem_no_id)

text \<open>
  \<open>addItem("v1")\<close> twice and then \<open>removeItem("v1")\<close> three times: the first removal
  leaves the entry with quantity \<open>1\<close>, writes it to the session storage and returns \<open>1\<close>;
  the second deletes the entry and returns \<open>0\<close>; the third finds nothing, returns \<open>0\<close>
  and leaves the store as it was.
\<close>

theorem removeItem_cases_witness:
  "store_ok (add_all [''v1'', ''v1''] empty_cart) \<and>
   map_of (Object_entries (add_all [''v1'', ''v1''] empty_cart)) ''v1''
     = Some \<lparr>quantity = 2, price = Num (Fin 0)\<rparr> \<and>
   outcome (removeItem (Some ''v1'') (add_all [''v1'', ''v1''] empty_cart)) = Inr (Fin 1) \<and>
   Object_entries (after (removeItem (Some ''v1'') (add_all [''v1'', ''v1''] empty_cart)))
     = [(''v1'', \<lparr>quantity = 1, price = Num (Fin 0)\<rparr>)] \<and>
   content (session (after (removeItem (Some ''v1'') (add_all [''v1'', ''v1''] empty_cart))))
     = Some (Text_json (JObject [(''v1'', JObject [(''quantity'', JNumber 1), (''price'', JNumber 0)])])) \<and>
   outcome (removeItem (Some ''v1'')
      (after (removeItem (Some ''v1'') (add_all [''v1'', ''v1''] empty_cart)))) = Inr (Fin 0) \<and>
   Object_entries (after (removeItem (Some ''v1'')
      (after (removeItem (Some ''v1'') (add_all [''v1'', ''v1''] empty_cart))))) = [] \<and>
   \<not> inherited (after (removeItem (Some ''v1'')
      (after (removeItem (Some ''v1'') (add_all [''v1'', ''v1''] empty_cart))))) ''v1'' \<and>
   removeItem (Some ''v1'') (after (removeItem (Some ''v1'')
      (after (removeItem (Some ''v1'') (add_all [''v1'', ''v1''] empty_cart)))))
     = Inr (Fin 0, after (removeItem (Some ''v1'')
      (after (removeItem (Some ''v1'') (add_all [''v1'', ''v1''] empty_cart)))))"
proof -
  define s1 where "s1 = add_all [''v1'', ''v1''] empty_cart"
  define s2 where "s2 = after (removeItem (Some ''v1'') s1)"
  define s3 where "s3 = after (removeItem (Some ''v1'') s2)"
  have ok1: "store_ok s1" unfolding s1_def by (rule store_ok_add_all)
  have ok2: "store_ok s2" unfolding s2_def using ok1 by (rule store_ok_removeItem)
  have e1: "Object_entries s1 = [(''v1'', \<lparr>quantity = 2, price = Num (Fin 0)\<rparr>)]"
    unfolding s1_def by (simp add: add_all_def run_defs)
  have c1: "content (session s1)
      = Some (Text_json (JObject [(''v1'', JObject [(''quantity'', JNumber 2), (''price'', JNumber 0)])]))"
    "\<not> setItem_throws (session s1)"
    unfolding s1_def by (simp_all add: add_all_def run_defs)
  from removeItem_cases[of s1 "''v1''" "\<lparr>quantity = 2, price = Num (Fin 0)\<rparr>"] ok1 e1
  obtain s' where r1: "removeItem (Some ''v1'') s1 = Inr (Fin 1, s')"
    and m1: "map_of (Object_entries s') = (map_of (Object_entries s1))(''v1'' \<mapsto> \<lparr>quantity = 1, price = Num (Fin 0)\<rparr>)"
    and p1: "persisted s1 s'"
    by auto
  have s2: "s2 = s'" by (simp add: s2_def r1)
  have e2: "Object_entries s2 = [(''v1'', \<lparr>quantity = 1, price = Num (Fin 0)\<rparr>)]"
    unfolding s2_def s1_def by (simp add: add_all_def run_defs)
  have c2: "content (session s2)
      = Some (Text_json (JObject [(''v1'', JObject [(''quantity'', JNumber 1), (''price'', JNumber 0)])]))"
    using p1 c1(2) e2 unfolding s2
    by (simp add: persisted_def JSON_stringify_def json_of_line_def)
  from removeItem_cases[of s2 "''v1''" "\<lparr>quantity = 1, price = Num (Fin 0)\<rparr>"] ok2 e2
  obtain s'' where r2: "removeItem (Some ''v1'') s2 = Inr (Fin 0, s'')"
    and m2: "map_of (Object_entries s'') = (map_of (Object_entries s2))(''v1'' := None)"
    by auto
  have s3: "s3 = s''" by (simp add: s3_def r2)
  have e3: "Object_entries s3 = []"
    unfolding s3_def s2_def s1_def by (simp add: add_all_def run_defs)
  then have absent: "''v1'' \<notin> set (Object_keys s3)"
    using keys_entries[of s3] by simp
  have ni: "\<not> inherited s3 ''v1''"
    unfolding s3_def s2_def s1_def by (simp add: add_all_def run_defs inherited_def)
  from removeItem_cases[of s3 "''v1''"] absent ni
  have r3: "removeItem (Some ''v1'') s3 = Inr (Fin 0, s3)" by blast
  have o1: "outcome (removeItem (Some ''v1'') s1) = Inr (Fin 1)" by (simp add: r1)
  have o2: "outcome (removeItem (Some ''v1'') s2) = Inr (Fin 0)" by (simp add: r2)
  show ?thesis
    using ok1 e1 o1 e2 c2 o2 e3 ni r3
    unfolding s3_def[symmetric] s2_def[symmetric] s1_def[symmetric] s2_def[symmetric] s3_def[symmetric]
    by simp
qed

text \<open>
  C2 as stated fails for the empty identifier. In a cart constructed from a stored
  document with the key \<open>""\<close> and quantity \<open>2\<close>, that key is present; the claim says that
  \<open>removeItem("")\<close> then takes one from the quantity, saves, notifies and returns \<open>1\<close>.
  The guard \<open>!variantId\<close> makes it return \<open>0\<close> at once: the quantity stays \<open>2\<close> and the
  subscribed listener is not called.
\<close>

theorem removeItem_empty_id_counterexample:
  "map_option Object_entries (ShoppingCart (page
       \<lparr>content = Some (Text_json (JObject
           [('''', JObject [(''quantity'', JNumber 2), (''price'', JNumber 1)])])),
        getItem_throws = False, setItem_throws = False\<rparr> quiet))
     = Some [('''', \<lparr>quantity = 2, price = Num (Fin 1)\<rparr>)] \<and>
   map_option (\<lambda>s. outcome (removeItem (Some '''') (subscribe (Function 0) s))) (ShoppingCart (page
       \<lparr>content = Some (Text_json (JObject
           [('''', JObject [(''quantity'', JNumber 2), (''price'', JNumber 1)])])),
        getItem_throws = False, setItem_throws = False\<rparr> quiet)) = Some (Inr (Fin 0)) \<and>
   map_option (\<lambda>s. Object_entries (after (removeItem (Some '''') (subscribe (Function 0) s)))) (ShoppingCart (page
       \<lparr>content = Some (Text_json (JObject
           [('''', JObject [(''quantity'', JNumber 2), (''price'', JNumber 1)])])),
        getItem_throws = False, setItem_throws = False\<rparr> quiet))
     = Some [('''', \<lparr>quantity = 2, price = Num (Fin 1)\<rparr>)] \<and>
   map_option (\<lambda>s. calls (after (removeItem (Some '''') (subscribe (Function 0) s)))) (ShoppingCart (page
       \<lparr>content = Some (Text_json (JObject
           [('''', JObject [(''quantity'', JNumber 2), (''price'', JNumber 1)])])),
        getItem_throws = False, setItem_throws = False\<rparr> quiet)) = Some []"
  by (simp add: run_defs load_defs removeItem_no_id)

text \<open>
  C5. When \<open>getItem\<close> throws, or the stored text is one that \<open>JSON.parse\<close> rejects, the
  constructor returns a cart with no entries. When \<open>setItem\<close> throws, every mutating call
  still does its work in memory and still notifies: \<open>addItem\<close> of a new identifier
  creates the entry and returns \<open>1\<close>, \<open>addItem\<close> of a present one stores and returns the
  incremented quantity, \<open>removeItem\<close> stores the decremented quantity or deletes the
  entry, \<open>clearCart\<close> leaves no entry; each of them calls the listeners with the new
  snapshot and leaves the session storage as it was, as does every \<open>addItem\<close> that
  returns. Moreover, what a call returns or throws and everything the store holds in
  memory afterwards (items, line items, listeners, the listener calls made) are the same
  whatever the state of the session storage is, and no call throws the storage's error.
\<close>

theorem storage_failures_stay_inside:
  "(getItem_throws (session w) \<or> (\<exists>t e. content (session w) = Some t \<and> JSON_parse t = Inl e) \<longrightarrow>
      (\<exists>s. ShoppingCart w = Some s \<and> Object_entries s = [] \<and> isEmpty s \<and> observers s = [])) \<and>
   (store_ok s \<and> setItem_throws (session s) \<longrightarrow>
      (k \<noteq> [] \<and> \<not> truthy_prop (get_prop s k) \<longrightarrow>
         (\<exists>s'. addItem (Some k) price_arg s = Inr (Fin 1, s') \<and>
               map_of (Object_entries s') =
                 (map_of (Object_entries s))(k \<mapsto> \<lparr>quantity = 1, price = Num (default_zero price_arg)\<rparr>) \<and>
               notified s s' \<and> session s' = session s)) \<and>
      (k \<noteq> [] \<and> map_of (Object_entries s) k = Some item \<longrightarrow>
         (\<exists>s'. addItem (Some k) price_arg s = Inr (Fin (of_int (to_double (quantity item + 1))), s') \<and>
               map_of (Object_entries s') =
                 (map_of (Object_entries s))(k \<mapsto>
                    \<lparr>quantity = to_double (quantity item + 1),
                     price = (if js_gt_zero (default_zero price_arg) then Num (default_zero price_arg)
                              else price item)\<rparr>) \<and>
               notified s s' \<and> session s' = session s) \<and>
         (\<exists>s'. removeItem (Some k) s =
                 Inr (Fin (of_int (if quantity item - 1 \<le> 0 then 0 else to_double (quantity item - 1))), s') \<and>
               map_of (Object_entries s') =
                 (if quantity item - 1 \<le> 0 then (map_of (Object_entries s))(k := None)
                  else (map_of (Object_entries s))(k \<mapsto> item\<lparr>quantity := to_double (quantity item - 1)\<rparr>)) \<and>
               notified s s' \<and> session s' = session s)) \<and>
      Object_entries (clearCart s) = [] \<and> notified s (clearCart s) \<and> session (clearCart s) = session s \<and>
      (\<forall>v s'. addItem variantId price_arg s = Inr (v, s') \<longrightarrow> notified s s' \<and> session s' = session s)) \<and>
   outcome (addItem variantId price_arg (s\<lparr>session := st\<rparr>)) = outcome (addItem variantId price_arg s) \<and>
   in_memory (after (addItem variantId price_arg (s\<lparr>session := st\<rparr>))) =
     in_memory (after (addItem variantId price_arg s)) \<and>
   outcome (removeItem variantId (s\<lparr>session := st\<rparr>)) = outcome (removeItem variantId s) \<and>
   in_memory (after (removeItem variantId (s\<lparr>session := st\<rparr>))) =
     in_memory (after (removeItem variantId s)) \<and>
   in_memory (clearCart (s\<lparr>session := st\<rparr>)) = in_memory (clearCart s) \<and>
   outcome (addItem variantId price_arg s) \<noteq> Inl DOMException \<and>
   outcome (removeItem variantId s) \<noteq> Inl DOMException"
proof (intro conjI impI allI)
  assume "getItem_throws (session w) \<or> (\<exists>t e. content (session w) = Some t \<and> JSON_parse t = Inl e)"
  then show "\<exists>s. ShoppingCart w = Some s \<and> Object_entries s = [] \<and> isEmpty s \<and> observers s = []"
    by (rule ShoppingCart_unreadable)
next
  assume a: "store_ok s \<and> setItem_throws (session s)" and b: "k \<noteq> [] \<and> \<not> truthy_prop (get_prop s k)"
  have none: "map_of (Object_entries s) k = None"
    using b falsy_not_own[of s k] by (simp add: map_of_entries)
  have "\<exists>s'. addItem (Some k) price_arg s = Inr (Fin 1, s') \<and>
               map_of (Object_entries s') =
                 (map_of (Object_entries s))(k \<mapsto> \<lparr>quantity = 1, price = Num (default_zero price_arg)\<rparr>) \<and>
               persisted s s' \<and> notified s s'"
    using addItem_entry[of s k price_arg] a b unfolding none
    by (simp add: to_double_small cong: if_cong)
  then show "\<exists>s'. addItem (Some k) price_arg s = Inr (Fin 1, s') \<and>
               map_of (Object_entries s') =
                 (map_of (Object_entries s))(k \<mapsto> \<lparr>quantity = 1, price = Num (default_zero price_arg)\<rparr>) \<and>
               notified s s' \<and> session s' = session s"
    using a by (meson persisted_throwing)
next
  assume a: "store_ok s \<and> setItem_throws (session s)" and b: "k \<noteq> [] \<and> map_of (Object_entries s) k = Some item"
  have key: "k \<in> set (Object_keys s)" using b by (simp add: present_key)
  have "\<exists>s'. addItem (Some k) price_arg s = Inr (Fin (of_int (to_double (quantity item + 1))), s') \<and>
               map_of (Object_entries s') =
                 (map_of (Object_entries s))(k \<mapsto>
                    \<lparr>quantity = to_double (quantity item + 1),
                     price = (if js_gt_zero (default_zero price_arg) then Num (default_zero price_arg)
                              else price item)\<rparr>) \<and>
               persisted s s' \<and> notified s s'"
    using addItem_entry[of s k price_arg] a b key by (simp cong: if_cong)
  then show "\<exists>s'. addItem (Some k) price_arg s = Inr (Fin (of_int (to_double (quantity item + 1))), s') \<and>
               map_of (Object_entries s') =
                 (map_of (Object_entries s))(k \<mapsto>
                    \<lparr>quantity = to_double (quantity item + 1),
                     price = (if js_gt_zero (default_zero price_arg) then Num (default_zero price_arg)
                              else price item)\<rparr>) \<and>
               notified s s' \<and> session s' = session s"
    using a by (meson persisted_throwing)
  from removeItem_present[of s k item] a b
  show "\<exists>s'. removeItem (Some k) s =
                 Inr (Fin (of_int (if quantity item - 1 \<le> 0 then 0 else to_double (quantity item - 1))), s') \<and>
               map_of (Object_entries s') =
                 (if quantity item - 1 \<le> 0 then (map_of (Object_entries s))(k := None)
                  else (map_of (Object_entries s))(k \<mapsto> item\<lparr>quantity := to_double (quantity item - 1)\<rparr>)) \<and>
               notified s s' \<and> session s' = session s"
    using a by (meson persisted_throwing)
next
  assume a: "store_ok s \<and> setItem_throws (session s)"
  show "Object_entries (clearCart s) = []" using a by (simp add: entries_clearCart)
  show "notified s (clearCart s)" using a by (simp add: clearCart_notified)
  show "session (clearCart s) = session s" using a by (simp add: session_clearCart)
next
  fix v s'
  assume a: "store_ok s \<and> setItem_throws (session s)" and r: "addItem variantId price_arg s = Inr (v, s')"
  show "notified s s'" using a r addItem_notified by blast
  have "session (after (addItem variantId price_arg s)) = session s"
    using a by (simp add: session_addItem)
  then show "session s' = session s" by (simp add: r)
qed (simp_all add: in_memory_addItem in_memory_removeItem in_memory_clearCart no_storage_error outcome_session)

text \<open>
  A session storage in which \<open>getItem\<close> and \<open>setItem\<close> throw, and one that holds a text
  that is not JSON: the cart starts empty. With the throwing storage and one listener,
  \<open>addItem("v1", 3)\<close> returns \<open>1\<close>, stores the entry and calls the listener; then
  \<open>removeItem("v1")\<close> returns \<open>0\<close>, deletes the entry and calls the listener with the
  empty snapshot, and so does \<open>clearCart()\<close>; the storage stays as it was.
\<close>

theorem storage_failures_stay_inside_witness:
  "getItem_throws (session (page \<lparr>content = None, getItem_throws = True, setItem_throws = True\<rparr> quiet)) \<and>
   map_option Object_entries
     (ShoppingCart (page \<lparr>content = None, getItem_throws = True, setItem_throws = True\<rparr> quiet)) = Some [] \<and>
   JSON_parse Text_malformed = Inl SyntaxError \<and>
   map_option Object_entries
     (ShoppingCart (page \<lparr>content = Some Text_malformed, getItem_throws = False, setItem_throws = False\<rparr> quiet))
     = Some [] \<and>
   store_ok (subscribe (Function 0)
     (the (ShoppingCart (page \<lparr>content = None, getItem_throws = True, setItem_throws = True\<rparr> quiet)))) \<and>
   setItem_throws (session (subscribe (Function 0)
     (the (ShoppingCart (page \<lparr>content = None, getItem_throws = True, setItem_throws = True\<rparr> quiet))))) \<and>
   outcome (addItem (Some ''v1'') (Some (Fin 3)) (subscribe (Function 0)
     (the (ShoppingCart (page \<lparr>content = None, getItem_throws = True, setItem_throws = True\<rparr> quiet)))))
     = Inr (Fin 1) \<and>
   Object_entries (after (addItem (Some ''v1'') (Some (Fin 3)) (subscribe (Function 0)
     (the (ShoppingCart (page \<lparr>content = None, getItem_throws = True, setItem_throws = True\<rparr> quiet))))))
     = [(''v1'', \<lparr>quantity = 1, price = Num (Fin 3)\<rparr>)] \<and>
   calls (after (addItem (Some ''v1'') (Some (Fin 3)) (subscribe (Function 0)
     (the (ShoppingCart (page \<lparr>content = None, getItem_throws = True, setItem_throws = True\<rparr> quiet))))))
     = [(0, ([(''v1'', \<lparr>quantity = 1, price = Num (Fin 3)\<rparr>)], 1, Fin 3))] \<and>
   outcome (removeItem (Some ''v1'') (after (addItem (Some ''v1'') (Some (Fin 3)) (subscribe (Function 0)
     (the (ShoppingCart (page \<lparr>content = None, getItem_throws = True, setItem_throws = True\<rparr> quiet)))))))
     = Inr (Fin 0) \<and>
   Object_entries (after (removeItem (Some ''v1'') (after (addItem (Some ''v1'') (Some (Fin 3)) (subscribe (Function 0)
     (the (ShoppingCart (page \<lparr>content = None, getItem_throws = True, setItem_throws = True\<rparr> quiet))))))))
     = [] \<and>
   calls (after (removeItem (Some ''v1'') (after (addItem (Some ''v1'') (Some (Fin 3)) (subscribe (Function 0)
     (the (ShoppingCart (page \<lparr>content = None, getItem_throws = True, setItem_throws = True\<rparr> quiet))))))))
     = [(0, ([(''v1'', \<lparr>quantity = 1, price = Num (Fin 3)\<rparr>)], 1, Fin 3)), (0, ([], 0, Fin 0))] \<and>
   session (after (removeItem (Some ''v1'') (after (addItem (Some ''v1'') (Some (Fin 3)) (subscribe (Function 0)
     (the (ShoppingCart (page \<lparr>content = None, getItem_throws = True, setItem_throws = True\<rparr> quiet))))))))
     = \<lparr>content = None, getItem_throws = True, setItem_throws = True\<rparr> \<and>
   Object_entries (clearCart (after (addItem (Some ''v1'') (Some (Fin 3)) (subscribe (Function 0)
     (the (ShoppingCart (page \<lparr>content = None, getItem_throws = True, setItem_throws = True\<rparr> quiet)))))))
     = [] \<and>
   calls (clearCart (after (addItem (Some ''v1'') (Some (Fin 3)) (subscribe (Function 0)
     (the (ShoppingCart (page \<lparr>content = None, getItem_throws = True, setItem_throws = True\<rparr> quiet)))))))
     = [(0, ([(''v1'', \<lparr>quantity = 1, price = Num (Fin 3)\<rparr>)], 1, Fin 3)), (0, ([], 0, Fin 0))]"
proof -
  define w1 where "w1 = page \<lparr>content = None, getItem_throws = True, setItem_throws = True\<rparr> quiet"
  define w2 where "w2 = page \<lparr>content = Some Text_malformed, getItem_throws = False, setItem_throws = False\<rparr> quiet"
  define s where "s = subscribe (Function 0) (the (ShoppingCart w1))"
  define s1 where "s1 = after (addItem (Some ''v1'') (Some (Fin 3)) s)"
  have g: "getItem_throws (session w1)" unfolding w1_def by (simp add: page_def)
  have m: "content (session w2) = Some Text_malformed" "JSON_parse Text_malformed = Inl SyntaxError"
    unfolding w2_def by (simp_all add: page_def)
  have ok: "store_ok s" unfolding s_def w1_def by (simp add: store_ok_def js_ordered_def run_defs)
  have ok1: "store_ok s1" unfolding s1_def using ok by (rule store_ok_addItem)
  have t: "setItem_throws (session s)" "session s = \<lparr>content = None, getItem_throws = True, setItem_throws = True\<rparr>"
    "calls s = []" "observers s = [0]"
    unfolding s_def w1_def by (simp_all add: run_defs)
  have f: "\<not> truthy_prop (get_prop s ''v1'')" unfolding s_def w1_def by (simp add: run_defs)
  have e: "Object_entries s1 = [(''v1'', \<lparr>quantity = 1, price = Num (Fin 3)\<rparr>)]"
    "snapshot_of s1 = ([(''v1'', \<lparr>quantity = 1, price = Num (Fin 3)\<rparr>)], 1, Fin 3)"
    "observers s1 = [0]"
    unfolding s1_def s_def w1_def by (simp_all add: snapshot_of_def run_defs)
  from storage_failures_stay_inside[where w = w1 and s = s and k = "''v1''" and price_arg = "Some (Fin 3)"
      and variantId = "Some ''v1''" and st = "session s" and item = "\<lparr>quantity = 1, price = Num (Fin 3)\<rparr>"]
    g ok t(1) f
  obtain s' where c1: "map_option Object_entries (ShoppingCart w1) = Some []"
    and a1: "addItem (Some ''v1'') (Some (Fin 3)) s = Inr (Fin 1, s')"
    and n1: "notified s s'" and ses1: "session s' = session s"
    by auto
  have s1': "s1 = s'" by (simp add: s1_def a1)
  have cal1: "calls s1 = [(0, ([(''v1'', \<lparr>quantity = 1, price = Num (Fin 3)\<rparr>)], 1, Fin 3))]"
    using n1 t(3,4) e(2) unfolding s1'[symmetric] by (simp add: notified_def)
  have t1: "setItem_throws (session s1)" "session s1 = \<lparr>content = None, getItem_throws = True, setItem_throws = True\<rparr>"
    using ses1 t(1,2) by (simp_all add: s1')
  have me: "map_of (Object_entries s1) ''v1'' = Some \<lparr>quantity = 1, price = Num (Fin 3)\<rparr>"
    by (simp add: e(1))
  have r0: "Object_entries (after (removeItem (Some ''v1'') s1)) = []"
    "snapshot_of (after (removeItem (Some ''v1'') s1)) = ([], 0, Fin 0)"
    "snapshot_of (clearCart s1) = ([], 0, Fin 0)"
    unfolding s1_def s_def w1_def by (simp_all add: snapshot_of_def run_defs)
  from storage_failures_stay_inside[where w = w2 and s = s1 and k = "''v1''"
      and item = "\<lparr>quantity = 1, price = Num (Fin 3)\<rparr>" and st = "session s1"
      and variantId = None and price_arg = None] m ok1 t1(1) me
  obtain s'' where c2: "map_option Object_entries (ShoppingCart w2) = Some []"
    and r: "removeItem (Some ''v1'') s1 = Inr (Fin 0, s'')"
    and n2: "notified s1 s''" and ses2: "session s'' = session s1"
    and ce: "Object_entries (clearCart s1) = []" and cn: "notified s1 (clearCart s1)"
    by auto
  have s2': "after (removeItem (Some ''v1'') s1) = s''" by (simp add: r)
  have cal2: "calls (after (removeItem (Some ''v1'') s1))
      = [(0, ([(''v1'', \<lparr>quantity = 1, price = Num (Fin 3)\<rparr>)], 1, Fin 3)), (0, ([], 0, Fin 0))]"
    using n2 cal1 e(3) r0(2) unfolding s2' [symmetric] by (simp add: notified_def)
  have cal3: "calls (clearCart s1)
      = [(0, ([(''v1'', \<lparr>quantity = 1, price = Num (Fin 3)\<rparr>)], 1, Fin 3)), (0, ([], 0, Fin 0))]"
    using cn cal1 e(3) r0(3) by (simp add: notified_def)
  have o1: "outcome (addItem (Some ''v1'') (Some (Fin 3)) s) = Inr (Fin 1)" by (simp add: a1)
  have o2: "outcome (removeItem (Some ''v1'') s1) = Inr (Fin 0)" by (simp add: r)
  have ses: "session (after (removeItem (Some ''v1'') s1))
      = \<lparr>content = None, getItem_throws = True, setItem_throws = True\<rparr>"
    using ses2 t1(2) by (simp add: s2')
  show ?thesis
    using g c1 m(2) c2 ok t(1) o1 e(1) cal1 o2 r0(1) cal2 ses ce cal3
    unfolding s1_def[symmetric] s_def[symmetric] w1_def[symmetric] w2_def[symmetric]
      s_def[symmetric] s1_def[symmetric]
    by simp
qed

end
